theory Spec2Isabelle
  imports Main "HOL-Library.AList" "HOL-Library.DAList"
begin

section \<open>Requests and JavaScript values\<close>

text \<open>
  The inbound request as the middleware stack of \<^verbatim>\<open>server.js\<close> sees it. Strings are byte
  strings (text stands for its UTF-8 encoding), so the UTF-8 byte length of a string is its
  \<open>length\<close>. \<open>req_pathname\<close> and \<open>req_query\<close> are the properties that
  \<^verbatim>\<open>_handleMockedRequest\<close> assigns on the request (\<open>None\<close>: \<^verbatim>\<open>undefined\<close> or
  \<^verbatim>\<open>null\<close>); \<open>req_body\<close> stands for the fields a multipart decoder attached before.
\<close>

record request =
  req_method :: string
  req_url :: string
  req_headers :: "(string \<times> string) list"
  req_body :: "(string \<times> string) list"
  req_pathname :: "string option"
  req_query :: "string option"

text \<open>
  A JavaScript value. A function value \<open>JFun n f g\<close> has declared arity \<open>n\<close>
  (\<^verbatim>\<open>fn.length\<close>); \<open>f req\<close> is what it returns when called, and \<open>g req\<close> is the value it
  hands to a continuation passed as second argument (\<open>None\<close>: it never calls the
  continuation). User functions are pure functions of the request. Numbers are integers.
\<close>

datatype jsval =
    JUndefined
  | JNull
  | JBool bool
  | JNum int
  | JStr string
  | JBuf string
  | JFun nat "request \<Rightarrow> jsval" "request \<Rightarrow> jsval option"

type_synonym object = "(string, jsval) alist"

text \<open>JavaScript truthiness, as \<^verbatim>\<open>||\<close> tests it.\<close>

fun truthy :: "jsval \<Rightarrow> bool" where
  "truthy JUndefined = False"
| "truthy JNull = False"
| "truthy (JBool b) = b"
| "truthy (JNum n) = (n \<noteq> 0)"
| "truthy (JStr s) = (s \<noteq> [])"
| "truthy (JBuf b) = True"
| "truthy (JFun n f g) = True"

text \<open>\<^verbatim>\<open>a || b\<close>\<close>

definition or_else :: "jsval \<Rightarrow> jsval \<Rightarrow> jsval" where
  "or_else a b = (if truthy a then a else b)"

text \<open>\<^verbatim>\<open>_(v).isFunction()\<close>, \<^verbatim>\<open>Buffer.isBuffer(v)\<close>, \<^verbatim>\<open>v !== null\<close>, \<^verbatim>\<open>v !== true\<close>\<close>

fun isFunction :: "jsval \<Rightarrow> bool" where
  "isFunction (JFun n f g) = True"
| "isFunction v = False"

fun isBuffer :: "jsval \<Rightarrow> bool" where
  "isBuffer (JBuf b) = True"
| "isBuffer v = False"

fun isNull :: "jsval \<Rightarrow> bool" where
  "isNull JNull = True"
| "isNull v = False"

fun isTrue :: "jsval \<Rightarrow> bool" where
  "isTrue (JBool b) = b"
| "isTrue v = False"

text \<open>
  \<^verbatim>\<open>Buffer.isBuffer(content) ? content.length : Buffer.byteLength(content, "utf8")\<close>.
  \<^verbatim>\<open>Buffer.byteLength\<close> takes a string; on any other value it raises a \<^verbatim>\<open>TypeError\<close>
  (\<open>None\<close>).
\<close>

fun contentLength :: "jsval \<Rightarrow> nat option" where
  "contentLength (JBuf b) = Some (length b)"
| "contentLength (JStr s) = Some (length s)"
| "contentLength v = None"

text \<open>\<^verbatim>\<open>String.prototype.toUpperCase\<close> on the ASCII letters.\<close>

definition upperChar :: "char \<Rightarrow> char" where
  "upperChar c =
     (case map_of (zip ''abcdefghijklmnopqrstuvwxyz'' ''ABCDEFGHIJKLMNOPQRSTUVWXYZ'') c of
        None \<Rightarrow> c
      | Some u \<Rightarrow> u)"

definition toUpperCase :: "string \<Rightarrow> string" where
  "toUpperCase s = map upperChar s"

text \<open>
  \<^verbatim>\<open>url.parse(req.url, true)\<close> for a request target in origin form: the pathname is the
  text before the first \<^verbatim>\<open>?\<close> or \<^verbatim>\<open>#\<close> (\<^verbatim>\<open>null\<close> when empty), the query the text
  between the first \<^verbatim>\<open>?\<close> and the \<^verbatim>\<open>#\<close>, kept undecoded.
\<close>

definition url_pathname :: "string \<Rightarrow> string option" where
  "url_pathname u =
     (let p = takeWhile (\<lambda>c. c \<noteq> CHR ''?'' \<and> c \<noteq> CHR ''#'') u
      in if p = [] then None else Some p)"

definition url_query :: "string \<Rightarrow> string option" where
  "url_query u =
     (let rest = dropWhile (\<lambda>c. c \<noteq> CHR ''?'') (takeWhile (\<lambda>c. c \<noteq> CHR ''#'') u)
      in if rest = [] then None else Some (tl rest))"

section \<open>Objects\<close>

text \<open>
  A JavaScript object is an association list with unique keys, in insertion order.
  \<^verbatim>\<open>_(obj).extend(source1, source2, ...)\<close> assigns every property of every source to
  \<open>obj\<close> itself, in order, and returns \<open>obj\<close>.
\<close>

definition assign :: "object \<Rightarrow> object \<Rightarrow> object" where
  "assign source obj = fold (\<lambda>(k, v). DAList.update k v) (DAList.impl_of source) obj"

definition extendObject :: "object \<Rightarrow> object list \<Rightarrow> object" where
  "extendObject obj sources = fold assign sources obj"

text \<open>The property names of an object, in order, and the object \<^verbatim>\<open>{"content-length": length}\<close>.\<close>

definition keys :: "object \<Rightarrow> string list" where
  "keys obj = map fst (DAList.impl_of obj)"

definition lengthHeader :: "nat \<Rightarrow> object" where
  "lengthHeader len = DAList.update ''content-length'' (JNum (int len)) DAList.empty"

section \<open>Handlers\<close>

record reply =
  r_status :: jsval
  r_body :: jsval
  r_headers :: object
  r_headersOverrides :: "object option"

record handler =
  h_on :: "string option"
  h_when :: string
  h_filter :: "(request \<Rightarrow> jsval) option"
  h_reply :: reply
  h_delay :: "nat option"

text \<open>
  The descriptor passed to \<^verbatim>\<open>will\<close>: \<open>None\<close> is a property the caller left out,
  \<open>Some v\<close> a property that is present, whatever its value.
\<close>

record reply_descriptor =
  d_status :: "jsval option"
  d_body :: "jsval option"
  d_headers :: "object option"
  d_headersOverrides :: "object option"

record descriptor =
  d_on :: "string option"
  d_when :: "string option"
  d_filter :: "(request \<Rightarrow> jsval) option"
  d_reply :: "reply_descriptor option"
  d_delay :: "nat option"

section \<open>The server\<close>

datatype listener = Http | Https

record server =
  sv_host :: string
  sv_port :: nat
  sv_key :: "string option"
  sv_cert :: "string option"
  sv_server :: "listener option"
  sv_handlers :: "handler list"
  sv_connections :: "nat list"

text \<open>\<^verbatim>\<open>new Server(host, port, key, cert)\<close>\<close>

definition Server :: "string \<Rightarrow> nat \<Rightarrow> string option \<Rightarrow> string option \<Rightarrow> server" where
  "Server host port key cert =
     \<lparr>sv_host = host, sv_port = port, sv_key = key, sv_cert = cert,
      sv_server = None, sv_handlers = [], sv_connections = []\<rparr>"

subsection \<open>Registration\<close>

definition noReply :: reply_descriptor where
  "noReply = \<lparr>d_status = None, d_body = None, d_headers = None, d_headersOverrides = None\<rparr>"

definition defaultHeaders :: object where
  "defaultHeaders = DAList.update ''content-type'' (JStr ''application/json'') DAList.empty"

text \<open>
  The handler that \<^verbatim>\<open>will\<close> pushes. \<^verbatim>\<open>handler.reply\<close> becomes a fresh object extended
  with \<^verbatim>\<open>{status: 200, body: ""}\<close> and then with the given reply (a missing reply adds
  nothing), so a property that is present wins over its default;
  \<^verbatim>\<open>handler.reply.headers\<close> becomes a fresh object extended with the default content type
  and then with the given headers; the handler is a fresh object extended with
  \<^verbatim>\<open>{when: "GET"}\<close> and then with the descriptor.
\<close>

definition stored :: "descriptor \<Rightarrow> handler" where
  "stored handler =
     (let given = (case d_reply handler of None \<Rightarrow> noReply | Some r \<Rightarrow> r);
          headers = extendObject DAList.empty
                      [defaultHeaders,
                       (case d_headers given of None \<Rightarrow> DAList.empty | Some h \<Rightarrow> h)]
      in \<lparr>h_on = d_on handler,
          h_when = (case d_when handler of None \<Rightarrow> ''GET'' | Some w \<Rightarrow> w),
          h_filter = d_filter handler,
          h_reply = \<lparr>r_status = (case d_status given of None \<Rightarrow> JNum 200 | Some v \<Rightarrow> v),
                     r_body = (case d_body given of None \<Rightarrow> JStr [] | Some v \<Rightarrow> v),
                     r_headers = headers,
                     r_headersOverrides = d_headersOverrides given\<rparr>,
          h_delay = d_delay handler\<rparr>)"

text \<open>
  \<^verbatim>\<open>this.will\<close>: pushes the handler and returns the server. (It also assigns the new reply
  object to the descriptor it was given; the table is what the server reads afterwards.)
\<close>

definition will :: "server \<Rightarrow> descriptor \<Rightarrow> server" where
  "will this handler = this\<lparr>sv_handlers := sv_handlers this @ [stored handler]\<rparr>"

subsection \<open>Resolving body and status\<close>

text \<open>
  What a request does is observed in two ways: the calls of user functions and of the two
  resolution callbacks, in order (\<open>event\<close>, tagged with the index of the handler in the
  table), and the calls made on the response object (\<open>res_call\<close>).
\<close>

datatype event =
    FilterInvoked nat request
  | BodyInvoked nat request
  | BodyInvokedWithContinuation nat request
  | BodyResolved nat jsval
  | StatusInvoked nat request
  | StatusResolved nat jsval

datatype res_call =
    WriteHead jsval object
  | Write jsval "string option"
  | End "string option"

datatype timing = Immediately | AfterTimeout nat

text \<open>
  \<open>Pending\<close>: no call is ever made on the response. \<open>Response t calls\<close>: the calls are made,
  at once or from a timer. \<open>Throws\<close>: a \<^verbatim>\<open>TypeError\<close> is raised before any call.
\<close>

datatype outcome = Pending | Response timing "res_call list" | Throws

text \<open>
  \<^verbatim>\<open>_getResponseBody(handler, req, callback)\<close>: the calls of the user function, and the value
  passed to \<open>callback\<close> (\<open>None\<close> when \<open>callback\<close> is never called).
\<close>

definition getResponseBody :: "nat \<Rightarrow> handler \<Rightarrow> request \<Rightarrow> event list \<times> jsval option" where
  "getResponseBody i handler req =
     (case r_body (h_reply handler) of
        JFun n f g \<Rightarrow>
          if n \<le> 1 then ([BodyInvoked i req], Some (or_else (f req) (JStr [])))
          else ([BodyInvokedWithContinuation i req], g req)
      | v \<Rightarrow> ([], Some (or_else v (JStr []))))"

text \<open>\<^verbatim>\<open>_getResponseStatus(handler, req, callback)\<close>: \<open>callback\<close> is always called.\<close>

definition getResponseStatus :: "nat \<Rightarrow> handler \<Rightarrow> request \<Rightarrow> event list \<times> jsval" where
  "getResponseStatus i handler req =
     (case r_status (h_reply handler) of
        JFun n f g \<Rightarrow> ([StatusInvoked i req], or_else (f req) (JNum 0))
      | v \<Rightarrow> ([], or_else v (JNum 0)))"

subsection \<open>Dispatch\<close>

text \<open>
  \<^verbatim>\<open>_(obj).each(iterator)\<close> on an object. Underscore walks an array-like object, one whose
  \<^verbatim>\<open>length\<close> property is a number between 0 and \<open>2\<^sup>5\<^sup>3 - 1\<close>, by the indices
  \<^verbatim>\<open>0 .. length - 1\<close>, and any other object by its keys. \<open>eachPairs\<close> is the list of the
  names and values the iterator is called with, in order; an index names the property whose
  key is its decimal numeral, and a missing property reads as \<^verbatim>\<open>undefined\<close>.
\<close>

fun decimal :: "nat \<Rightarrow> string" where
  "decimal n =
     (if n < 10 then [''0123456789'' ! n]
      else decimal (n div 10) @ [''0123456789'' ! (n mod 10)])"

definition arrayLength :: "object \<Rightarrow> nat option" where
  "arrayLength obj =
     (case DAList.lookup obj ''length'' of
        Some (JNum n) \<Rightarrow> if 0 \<le> n \<and> n \<le> 2 ^ 53 - 1 then Some (nat n) else None
      | _ \<Rightarrow> None)"

definition eachPairs :: "object \<Rightarrow> (string \<times> jsval) list" where
  "eachPairs obj =
     (case arrayLength obj of
        Some n \<Rightarrow>
          map (\<lambda>i. (decimal i,
                     (case DAList.lookup obj (decimal i) of None \<Rightarrow> JUndefined | Some v \<Rightarrow> v)))
              [0..<n]
      | None \<Rightarrow> DAList.impl_of obj)"

text \<open>
  The loop that copies every header whose value is not \<^verbatim>\<open>null\<close> into the fresh object
  \<^verbatim>\<open>headersToSend\<close>.
\<close>

definition removeNulls :: "object \<Rightarrow> object" where
  "removeNulls headers =
     fold (\<lambda>(name, value) headersToSend.
             if \<not> isNull value then DAList.update name value headersToSend else headersToSend)
          (eachPairs headers) DAList.empty"

text \<open>
  The callback that runs once body and status are resolved. \<^verbatim>\<open>_(handler.reply.headers).extend\<close>
  writes into the handler's own header object, so the handler is returned as updated.
\<close>

definition sendResponse :: "handler \<Rightarrow> request \<Rightarrow> jsval \<Rightarrow> jsval \<Rightarrow> outcome \<times> handler" where
  "sendResponse handler req content status =
     (case contentLength content of
        None \<Rightarrow> (Throws, handler)
      | Some len \<Rightarrow>
          let encoding = (if isBuffer content then None else Some ''utf8'');
              headers = extendObject (r_headers (h_reply handler))
                          [lengthHeader len,
                           (case r_headersOverrides (h_reply handler) of
                              None \<Rightarrow> DAList.empty | Some ov \<Rightarrow> ov)];
              headersToSend = removeNulls headers
          in (Response (AfterTimeout (case h_delay handler of None \<Rightarrow> 0 | Some d \<Rightarrow> d))
                ([WriteHead status headersToSend]
                 @ (if req_method req \<noteq> ''HEAD'' then [Write content encoding] else [])
                 @ [End None]),
              handler\<lparr>h_reply := (h_reply handler)\<lparr>r_headers := headers\<rparr>\<rparr>))"

text \<open>The variables that the loop over the handlers reads and writes.\<close>

record scan =
  s_req :: request
  s_handled :: bool
  s_trace :: "event list"
  s_outcome :: outcome

definition parseUrl :: "request \<Rightarrow> request" where
  "parseUrl req =
     req\<lparr>req_pathname := url_pathname (req_url req), req_query := url_query (req_url req)\<rparr>"

text \<open>
  The test that makes the loop body return at once, with the filter calls it makes:
  \<^verbatim>\<open>||\<close> and \<^verbatim>\<open>&&\<close> evaluate from the left and stop as soon as the result is known.
\<close>

definition cannotHandle :: "bool \<Rightarrow> nat \<Rightarrow> handler \<Rightarrow> request \<Rightarrow> bool \<times> event list" where
  "cannotHandle handled i handler req =
     (if handled then (True, [])
      else if h_when handler \<noteq> ''*'' \<and> req_method req \<noteq> toUpperCase (h_when handler)
        then (True, [])
      else if req_pathname req \<noteq> h_on handler then (True, [])
      else (case h_filter handler of
              None \<Rightarrow> (False, [])
            | Some f \<Rightarrow> (\<not> isTrue (f req), [FilterInvoked i req])))"

text \<open>
  What the loop body does with a handler it can handle: it resolves the body, then the
  status, and sends the response. The result is the calls and callbacks in order, the
  outcome, and the handler after it.
\<close>

definition respond :: "nat \<Rightarrow> handler \<Rightarrow> request \<Rightarrow> event list \<times> outcome \<times> handler" where
  "respond i handler req =
     (let (bodyCalls, delivered) = getResponseBody i handler req
      in case delivered of
           None \<Rightarrow> (bodyCalls, Pending, handler)
         | Some content \<Rightarrow>
             let (statusCalls, status) = getResponseStatus i handler req;
                 (out, handler') = sendResponse handler req content status
             in (bodyCalls @ [BodyResolved i content] @ statusCalls @ [StatusResolved i status],
                 out, handler'))"

text \<open>The function passed to \<^verbatim>\<open>_(handlers).each\<close>, applied to the handler at index \<open>i\<close>.\<close>

definition eachHandler :: "nat \<Rightarrow> handler \<Rightarrow> scan \<Rightarrow> scan \<times> handler" where
  "eachHandler i handler st =
     (let req = parseUrl (s_req st);
          (skip, filterCalls) = cannotHandle (s_handled st) i handler req;
          st1 = st\<lparr>s_req := req, s_trace := s_trace st @ filterCalls\<rparr>
      in if skip then (st1, handler)
         else
           let (events, out, handler') = respond i handler req
           in (st1\<lparr>s_handled := True, s_trace := s_trace st1 @ events, s_outcome := out\<rparr>,
               handler'))"

text \<open>
  \<^verbatim>\<open>_(handlers).each(...)\<close>, from index \<open>i\<close> on. After a handler has been handled, every
  later run of the loop body returns at once, so it makes no difference that a
  \<^verbatim>\<open>TypeError\<close> raised in the loop body ends the loop early.
\<close>

fun each :: "nat \<Rightarrow> handler list \<Rightarrow> scan \<Rightarrow> scan \<times> handler list" where
  "each i [] st = (st, [])"
| "each i (handler # handlers) st =
     (let (st', handler') = eachHandler i handler st;
          (st'', handlers') = each (Suc i) handlers st'
      in (st'', handler' # handlers'))"

record result =
  res_trace :: "event list"
  res_outcome :: outcome
  res_handlers :: "handler list"

text \<open>\<^verbatim>\<open>_handleMockedRequest(req, res, next)\<close> on the handler table \<open>handlers\<close>.\<close>

definition handleMockedRequest ::
  "handler list \<Rightarrow> request \<Rightarrow> (request \<Rightarrow> outcome) \<Rightarrow> result" where
  "handleMockedRequest handlers req next =
     (let (st, handlers') =
            each 0 handlers \<lparr>s_req = req, s_handled = False, s_trace = [], s_outcome = Pending\<rparr>
      in \<lparr>res_trace = s_trace st,
          res_outcome = (if \<not> s_handled st then next (s_req st) else s_outcome st),
          res_handlers = handlers'\<rparr>)"

text \<open>\<^verbatim>\<open>_handleDefaultRequest(req, res, next)\<close>\<close>

definition handleDefaultRequest :: "request \<Rightarrow> outcome" where
  "handleDefaultRequest req =
     Response Immediately
       [WriteHead (JNum 404)
          (DAList.update ''content-length'' (JNum 9)
             (DAList.update ''content-type'' (JStr ''plain/text'') DAList.empty)),
        End (Some ''Not Found'')]"

text \<open>
  The stack \<^verbatim>\<open>connect().use(_handleMockedRequest).use(_handleDefaultRequest)\<close> serving one
  request, and the server after it.
\<close>

definition connectApp :: "server \<Rightarrow> request \<Rightarrow> result" where
  "connectApp this req = handleMockedRequest (sv_handlers this) req handleDefaultRequest"

definition serve :: "server \<Rightarrow> request \<Rightarrow> server" where
  "serve this req = this\<lparr>sv_handlers := res_handlers (connectApp this req)\<rparr>"

subsection \<open>Lifecycle\<close>

text \<open>
  The calls a lifecycle operation makes on its environment: the completion callback, the
  listener and the connections.
\<close>

datatype action =
    Callback
  | ServerOn string
  | ServerListen nat string
  | ServerClose
  | ConnectionOn nat string
  | ConnectionEnd nat

text \<open>
  \<^verbatim>\<open>this.start\<close>, and its listeners for \<^verbatim>\<open>connection\<close>, connection \<^verbatim>\<open>close\<close> and
  \<^verbatim>\<open>listening\<close>. \<open>nonEmpty\<close> is the truthiness of an optional string (\<^verbatim>\<open>key && cert\<close>).
\<close>

definition nonEmpty :: "string option \<Rightarrow> bool" where
  "nonEmpty v = (case v of None \<Rightarrow> False | Some s \<Rightarrow> s \<noteq> [])"

definition start :: "server \<Rightarrow> server \<times> action list" where
  "start this =
     (this\<lparr>sv_server := Some (if nonEmpty (sv_key this) \<and> nonEmpty (sv_cert this) then Https else Http)\<rparr>,
      [ServerOn ''connection'', ServerOn ''listening'',
       ServerListen (sv_port this) (sv_host this)])"

definition start_onConnection :: "nat \<Rightarrow> server \<Rightarrow> server \<times> action list" where
  "start_onConnection connection this =
     (this\<lparr>sv_connections := sv_connections this @ [connection]\<rparr>,
      [ConnectionOn connection ''close''])"

definition start_onConnectionClose :: "nat \<Rightarrow> server \<Rightarrow> server \<times> action list" where
  "start_onConnectionClose connection this =
     (this\<lparr>sv_connections := removeAll connection (sv_connections this)\<rparr>, [])"

definition start_onListening :: "server \<Rightarrow> server \<times> action list" where
  "start_onListening this = (this, [Callback])"

text \<open>\<^verbatim>\<open>this.stop\<close>, and its listeners for the listener's and the connections' \<^verbatim>\<open>close\<close>.\<close>

definition stop :: "server \<Rightarrow> server \<times> action list" where
  "stop this =
     (if sv_server this = None then (this, [Callback])
      else (this, [ServerOn ''close'', ServerClose]))"

definition stop_onServerClose :: "server \<Rightarrow> server \<times> action list" where
  "stop_onServerClose this =
     (let this' = this\<lparr>sv_server := None, sv_handlers := []\<rparr>
      in if length (sv_connections this') = 0 then (this', [Callback])
         else (this',
               concat (map (\<lambda>connection. [ConnectionOn connection ''close'',
                                           ConnectionEnd connection])
                           (sv_connections this'))))"

definition stop_onConnectionClose :: "nat \<Rightarrow> server \<Rightarrow> server \<times> action list" where
  "stop_onConnectionClose connection this =
     (let this' = this\<lparr>sv_connections := removeAll connection (sv_connections this)\<rparr>
      in (this', if length (sv_connections this') = 0 then [Callback] else []))"

section \<open>Notions used to state the properties\<close>

text \<open>A handler matches a request when the loop body does not return at once on it.\<close>

definition matches :: "handler \<Rightarrow> request \<Rightarrow> bool" where
  "matches handler req = (\<not> fst (cannotHandle False 0 handler req))"

text \<open>What a response hands to the transport.\<close>

fun sentStatus :: "outcome \<Rightarrow> jsval option" where
  "sentStatus (Response t (WriteHead status headers # calls)) = Some status"
| "sentStatus out = None"

fun sentHeaders :: "outcome \<Rightarrow> object option" where
  "sentHeaders (Response t (WriteHead status headers # calls)) = Some headers"
| "sentHeaders out = None"

fun bodyOf :: "res_call \<Rightarrow> jsval list" where
  "bodyOf (Write content encoding) = [content]"
| "bodyOf (End (Some text)) = [JStr text]"
| "bodyOf call = []"

fun sentBody :: "outcome \<Rightarrow> jsval list" where
  "sentBody (Response t calls) = concat (map bodyOf calls)"
| "sentBody out = []"

fun eventIndex :: "event \<Rightarrow> nat" where
  "eventIndex (FilterInvoked i req) = i"
| "eventIndex (BodyInvoked i req) = i"
| "eventIndex (BodyInvokedWithContinuation i req) = i"
| "eventIndex (BodyResolved i v) = i"
| "eventIndex (StatusInvoked i req) = i"
| "eventIndex (StatusResolved i v) = i"

fun isBodyEvent :: "event \<Rightarrow> bool" where
  "isBodyEvent (BodyInvoked i req) = True"
| "isBodyEvent (BodyInvokedWithContinuation i req) = True"
| "isBodyEvent (BodyResolved i v) = True"
| "isBodyEvent e = False"

fun isStatusEvent :: "event \<Rightarrow> bool" where
  "isStatusEvent (StatusInvoked i req) = True"
| "isStatusEvent (StatusResolved i v) = True"
| "isStatusEvent e = False"

text \<open>
  The header law in the words of the specification: maps merged with the right operand
  winning (\<open>++\<close>), then every key whose value is \<^verbatim>\<open>null\<close> removed.
\<close>

definition withoutNulls :: "(string \<rightharpoonup> jsval) \<Rightarrow> (string \<rightharpoonup> jsval)" where
  "withoutNulls m = (\<lambda>k. case m k of None \<Rightarrow> None | Some v \<Rightarrow> if isNull v then None else Some v)"

definition givenHeaders :: "descriptor \<Rightarrow> (string \<rightharpoonup> jsval)" where
  "givenHeaders d =
     (case d_reply d of
        None \<Rightarrow> Map.empty
      | Some r \<Rightarrow> (case d_headers r of None \<Rightarrow> Map.empty | Some h \<Rightarrow> DAList.lookup h))"

definition givenOverrides :: "descriptor \<Rightarrow> (string \<rightharpoonup> jsval)" where
  "givenOverrides d =
     (case d_reply d of
        None \<Rightarrow> Map.empty
      | Some r \<Rightarrow> (case d_headersOverrides r of None \<Rightarrow> Map.empty | Some h \<Rightarrow> DAList.lookup h))"

definition specHeaders :: "descriptor \<Rightarrow> nat \<Rightarrow> (string \<rightharpoonup> jsval)" where
  "specHeaders d len =
     withoutNulls ([''content-type'' \<mapsto> JStr ''application/json''] ++ givenHeaders d
                   ++ [''content-length'' \<mapsto> JNum (int len)] ++ givenOverrides d)"

text \<open>
  A handler whose header object has been extended in place by a response of \<open>len\<close> bytes.
\<close>

definition mergedHeaders :: "handler \<Rightarrow> nat \<Rightarrow> handler" where
  "mergedHeaders handler len =
     handler\<lparr>h_reply := (h_reply handler)
       \<lparr>r_headers :=
          extendObject (r_headers (h_reply handler))
            [lengthHeader len,
             (case r_headersOverrides (h_reply handler) of
                None \<Rightarrow> DAList.empty | Some ov \<Rightarrow> ov)]\<rparr>\<rparr>"

text \<open>
  The headers of the handler, with its overrides, have an entry named \<^verbatim>\<open>length\<close> whose
  value is a number.
\<close>

definition namesLength :: "handler \<Rightarrow> bool" where
  "namesLength handler =
     (case (DAList.lookup (r_headers (h_reply handler))
            ++ (case r_headersOverrides (h_reply handler) of
                  None \<Rightarrow> Map.empty | Some ov \<Rightarrow> DAList.lookup ov)) ''length'' of
        Some (JNum n) \<Rightarrow> True
      | _ \<Rightarrow> False)"

text \<open>A handler after it has sent the responses \<open>earlier\<close>, one after the other.\<close>

definition responded :: "handler \<Rightarrow> (request \<times> jsval \<times> jsval) list \<Rightarrow> handler" where
  "responded handler earlier =
     fold (\<lambda>(req, content, status) h. snd (sendResponse h req content status)) earlier handler"

text \<open>The server after it has served the requests \<open>reqs\<close>, one after the other.\<close>

definition served :: "server \<Rightarrow> request list \<Rightarrow> server" where
  "served this reqs = fold (\<lambda>req s. serve s req) reqs this"

section \<open>Example inputs\<close>

definition incoming :: "string \<Rightarrow> string \<Rightarrow> request" where
  "incoming m u =
     \<lparr>req_method = m, req_url = u, req_headers = [], req_body = [],
      req_pathname = None, req_query = None\<rparr>"

definition replying :: "jsval option \<Rightarrow> jsval option \<Rightarrow> reply_descriptor" where
  "replying status body =
     \<lparr>d_status = status, d_body = body, d_headers = None, d_headersOverrides = None\<rparr>"

definition route :: "string \<Rightarrow> string option \<Rightarrow> reply_descriptor \<Rightarrow> descriptor" where
  "route path meth r =
     \<lparr>d_on = Some path, d_when = meth, d_filter = None, d_reply = Some r, d_delay = None\<rparr>"

text \<open>\<^verbatim>\<open>{on: "/ping", reply: {body: "pong"}}\<close>\<close>

definition ping :: descriptor where
  "ping = route ''/ping'' None (replying None (Some (JStr ''pong'')))"

text \<open>\<^verbatim>\<open>{on: "/ping", when: "*", reply: {status: 201, body: "second"}}\<close>\<close>

definition ping2 :: descriptor where
  "ping2 = route ''/ping'' (Some ''*'') (replying (Some (JNum 201)) (Some (JStr ''second'')))"

text \<open>\<^verbatim>\<open>{on: "/other", when: "post"}\<close>\<close>

definition other :: descriptor where
  "other = \<lparr>d_on = Some ''/other'', d_when = Some ''post'', d_filter = None,
            d_reply = None, d_delay = None\<rparr>"

definition mockServer :: server where
  "mockServer = Server ''localhost'' 9000 None None"

text \<open>\<^verbatim>\<open>{on: "/ping", filter: function(req) { return 1; }, reply: {body: "filtered"}}\<close>\<close>

definition filtered :: descriptor where
  "filtered = \<lparr>d_on = Some ''/ping'', d_when = None, d_filter = Some (\<lambda>req. JNum 1),
               d_reply = Some (replying None (Some (JStr ''filtered''))), d_delay = None\<rparr>"

text \<open>\<^verbatim>\<open>{on: "/zero", reply: {status: 0, body: null}}\<close>\<close>

definition zero :: descriptor where
  "zero = route ''/zero'' None (replying (Some (JNum 0)) (Some JNull))"

text \<open>
  \<^verbatim>\<open>{on: "/echo", when: "post", reply: {status: function(req) { return req.body.code; },
  body: function(req) { return req.body.name; }}}\<close>
\<close>

definition field :: "string \<Rightarrow> request \<Rightarrow> jsval" where
  "field name req = (case map_of (req_body req) name of None \<Rightarrow> JUndefined | Some v \<Rightarrow> JStr v)"

definition echo :: descriptor where
  "echo = route ''/echo'' (Some ''post'')
            (replying (Some (JFun 1 (field ''code'') (\<lambda>req. None)))
                      (Some (JFun 1 (field ''name'') (\<lambda>req. None))))"

text \<open>
  \<^verbatim>\<open>{on: "/later", when: "*", reply: {body: function(req, send) { if (req.method == "GET")
  send("late"); }}}\<close>
\<close>

definition later :: descriptor where
  "later = route ''/later'' (Some ''*'')
             (replying None
                (Some (JFun 2 (\<lambda>req. JUndefined)
                         (\<lambda>req. if req_method req = ''GET'' then Some (JStr ''late'') else None))))"

text \<open>
  \<^verbatim>\<open>{on: "/gone", when: "*", reply: {body: "gone", headers: {"content-type": null,
  "x-a": undefined}, headersOverrides: {"x-b": "b"}}}\<close>
\<close>

definition gone :: descriptor where
  "gone = route ''/gone'' (Some ''*'')
            \<lparr>d_status = None, d_body = Some (JStr ''gone''),
             d_headers = Some (DAList.update ''x-a'' JUndefined
                                 (DAList.update ''content-type'' JNull DAList.empty)),
             d_headersOverrides = Some (DAList.update ''x-b'' (JStr ''b'') DAList.empty)\<rparr>"

definition posted :: "(string \<times> string) list \<Rightarrow> request" where
  "posted form = (incoming ''POST'' ''/echo?x=1'')\<lparr>req_body := form\<rparr>"

text \<open>\<^verbatim>\<open>{on: "/custom", reply: {headers: {"x-a": "1"}}}\<close>\<close>

definition custom :: descriptor where
  "custom = route ''/custom'' None
              \<lparr>d_status = None, d_body = None,
               d_headers = Some (DAList.update ''x-a'' (JStr ''1'') DAList.empty),
               d_headersOverrides = None\<rparr>"

text \<open>\<^verbatim>\<open>{on: "/length", reply: {body: "abc", headers: {"length": 1}}}\<close>\<close>

definition lengthy :: descriptor where
  "lengthy = route ''/length'' None
               \<lparr>d_status = None, d_body = Some (JStr ''abc''),
                d_headers = Some (DAList.update ''length'' (JNum 1) DAList.empty),
                d_headersOverrides = None\<rparr>"

text \<open>
  \<^verbatim>\<open>{on: "/over", when: "*", reply: {body: "abc", headersOverrides: {"content-length": 99}}}\<close>
\<close>

definition overridden :: descriptor where
  "overridden = route ''/over'' (Some ''*'')
                  \<lparr>d_status = None, d_body = Some (JStr ''abc''), d_headers = None,
                   d_headersOverrides =
                     Some (DAList.update ''content-length'' (JNum 99) DAList.empty)\<rparr>"

section \<open>Objects: lookup and key order\<close>

lemma lookup_fold_update:
  "distinct (map fst xs) \<Longrightarrow>
   DAList.lookup (fold (\<lambda>(k, v). DAList.update k v) xs obj) = DAList.lookup obj ++ map_of xs"
proof (induction xs arbitrary: obj)
  case Nil
  then show ?case by simp
next
  case (Cons p xs)
  obtain k v where p: "p = (k, v)" by (cases p)
  from Cons.prems p have notin: "map_of xs k = None"
    by (simp add: map_of_eq_None_iff)
  have "DAList.lookup (fold (\<lambda>(k, v). DAList.update k v) (p # xs) obj)
        = DAList.lookup (DAList.update k v obj) ++ map_of xs"
    using Cons.IH [of "DAList.update k v obj"] Cons.prems p by simp
  also have "\<dots> = DAList.lookup obj ++ map_of (p # xs)"
    using notin by (auto simp: p map_add_def DAList.lookup_update fun_eq_iff split: option.splits)
  finally show ?case .
qed

lemma lookup_assign: "DAList.lookup (assign source obj) = DAList.lookup obj ++ DAList.lookup source"
  unfolding assign_def
  using lookup_fold_update [OF DAList.impl_of_distinct, of source obj]
  by (simp add: DAList.lookup.rep_eq [of source])

lemma lookup_extendObject2:
  "DAList.lookup (extendObject obj [a, b]) = DAList.lookup obj ++ DAList.lookup a ++ DAList.lookup b"
  by (simp add: extendObject_def lookup_assign)

lemma lookup_fold_nonnull:
  "distinct (map fst xs) \<Longrightarrow>
   DAList.lookup (fold (\<lambda>(name, value) acc. if \<not> isNull value then DAList.update name value acc else acc) xs acc) k
   = (case map_of xs k of None \<Rightarrow> DAList.lookup acc k
      | Some v \<Rightarrow> if isNull v then DAList.lookup acc k else Some v)"
proof (induction xs arbitrary: acc)
  case Nil
  then show ?case by simp
next
  case (Cons p xs)
  obtain n v where p: "p = (n, v)" by (cases p)
  from Cons.prems p have notin: "map_of xs n = None"
    by (simp add: map_of_eq_None_iff)
  from Cons.prems have d: "distinct (map fst xs)" by simp
  show ?case
    using notin by (auto simp: p Cons.IH [OF d] DAList.lookup_update split: option.splits)
qed

lemma lookup_removeNulls:
  assumes "arrayLength headers = None"
  shows "DAList.lookup (removeNulls headers) = withoutNulls (DAList.lookup headers)"
proof
  fix k
  show "DAList.lookup (removeNulls headers) k = withoutNulls (DAList.lookup headers) k"
    unfolding removeNulls_def withoutNulls_def eachPairs_def assms
    using lookup_fold_nonnull [OF DAList.impl_of_distinct, of headers DAList.empty k]
    by (simp add: DAList.lookup.rep_eq [of headers] split: option.splits)
qed

lemma keys_update:
  "keys (DAList.update k v obj) = (if k \<in> set (keys obj) then keys obj else keys obj @ [k])"
  by (simp add: keys_def DAList.update.rep_eq update_keys)

lemma keys_fold_update:
  "set (map fst xs) \<subseteq> set (keys obj) \<Longrightarrow>
   keys (fold (\<lambda>(k, v). DAList.update k v) xs obj) = keys obj"
proof (induction xs arbitrary: obj)
  case Nil
  then show ?case by simp
next
  case (Cons p xs)
  obtain k v where p: "p = (k, v)" by (cases p)
  from Cons.prems p have k: "k \<in> set (keys obj)" by simp
  then have ku: "keys (DAList.update k v obj) = keys obj" by (simp add: keys_update)
  from Cons.prems have "set (map fst xs) \<subseteq> set (keys (DAList.update k v obj))"
    by (simp add: ku)
  from Cons.IH [OF this] show ?case by (simp add: p ku)
qed


lemma set_keys_fold_update:
  "set (keys (fold (\<lambda>(k, v). DAList.update k v) xs obj)) = set (keys obj) \<union> set (map fst xs)"
proof (induction xs arbitrary: obj)
  case Nil
  then show ?case by simp
next
  case (Cons p xs)
  obtain k v where p: "p = (k, v)" by (cases p)
  have "set (keys (DAList.update k v obj)) = insert k (set (keys obj))"
    by (auto simp: keys_update)
  with Cons.IH [of "DAList.update k v obj"] show ?case by (simp add: p)
qed

lemma keys_fold_update_cong:
  "keys a = keys b \<Longrightarrow>
   keys (fold (\<lambda>(k, v). DAList.update k v) xs a) = keys (fold (\<lambda>(k, v). DAList.update k v) xs b)"
proof (induction xs arbitrary: a b)
  case Nil
  then show ?case by simp
next
  case (Cons p xs)
  obtain k v where p: "p = (k, v)" by (cases p)
  from Cons.prems have "keys (DAList.update k v a) = keys (DAList.update k v b)"
    by (simp add: keys_update)
  from Cons.IH [OF this] show ?case by (simp add: p)
qed

lemma keys_assign_cong: "keys a = keys b \<Longrightarrow> keys (assign source a) = keys (assign source b)"
  unfolding assign_def by (rule keys_fold_update_cong)

lemma keys_assign_absorb: "set (keys source) \<subseteq> set (keys obj) \<Longrightarrow> keys (assign source obj) = keys obj"
  unfolding assign_def by (rule keys_fold_update) (simp add: keys_def)

lemma set_keys_assign: "set (keys (assign source obj)) = set (keys obj) \<union> set (keys source)"
  unfolding assign_def
  using set_keys_fold_update [of "DAList.impl_of source" obj] by (simp add: keys_def)

lemma alist_eqI:
  "map fst xs = map fst ys \<Longrightarrow> distinct (map fst xs) \<Longrightarrow> map_of xs = map_of ys \<Longrightarrow> xs = ys"
proof (induction xs arbitrary: ys)
  case Nil
  then show ?case by simp
next
  case (Cons p xs)
  then obtain q ys' where ys: "ys = q # ys'" by (cases ys) auto
  with Cons.prems have fst: "fst p = fst q" and rest: "map fst xs = map fst ys'" by auto
  from Cons.prems(3) have meq: "map_of (p # xs) = map_of (q # ys')" by (simp only: ys)
  have "map_of (p # xs) (fst p) = map_of (q # ys') (fst p)"
    by (simp only: meq)
  then have "snd p = snd q" using fst by simp
  with fst have pq: "p = q" by (simp add: prod_eq_iff)
  have notin: "fst p \<notin> fst ` set xs" "fst p \<notin> fst ` set ys'"
    using Cons.prems rest by (auto simp flip: set_map)
  have "map_of xs = map_of ys'"
  proof
    fix k
    show "map_of xs k = map_of ys' k"
    proof (cases "k = fst p")
      case True
      have "map_of xs (fst p) = None" "map_of ys' (fst p) = None"
        using notin by (simp_all add: map_of_eq_None_iff)
      with True show ?thesis by simp
    next
      case False
      from meq pq have "map_of (p # xs) k = map_of (p # ys') k" by (simp only:)
      with False show ?thesis by (cases p) simp
    qed
  qed
  moreover from Cons.prems(2) have "distinct (map fst xs)" by simp
  ultimately have "xs = ys'" using rest by (intro Cons.IH)
  with ys pq show ?case by simp
qed

lemma object_eqI: "keys a = keys b \<Longrightarrow> DAList.lookup a = DAList.lookup b \<Longrightarrow> a = b"
  unfolding DAList.alist_eq_iff keys_def DAList.lookup.rep_eq
  by (rule alist_eqI) simp_all

lemma keys_lengthHeader: "keys (lengthHeader n) = [''content-length'']"
  by (simp add: lengthHeader_def keys_update) (simp add: keys_def DAList.empty.rep_eq)

lemma lookup_lengthHeader: "DAList.lookup (lengthHeader n) = [''content-length'' \<mapsto> JNum (int n)]"
  by (rule ext) (simp add: lengthHeader_def DAList.lookup_update)

lemma map_add_absorb: "((h ++ c ++ ov) ++ c' ++ ov) = (h ++ c' ++ ov)" if "dom c = dom c'"
proof
  fix k
  from that have "c k = None \<longleftrightarrow> c' k = None"
    by (metis domIff)
  then show "((h ++ c ++ ov) ++ c' ++ ov) k = (h ++ c' ++ ov) k"
    by (cases "ov k"; cases "c' k"; cases "c k") (simp_all add: map_add_def)
qed

lemma extend_absorb:
  "extendObject (extendObject H [lengthHeader n, ov]) [lengthHeader m, ov]
   = extendObject H [lengthHeader m, ov]"
proof (rule object_eqI)
  let ?X = "assign ov (assign (lengthHeader n) H)"
  have k1: "keys (assign (lengthHeader m) ?X) = keys ?X"
    by (rule keys_assign_absorb) (simp add: set_keys_assign keys_lengthHeader)
  have k2: "keys (assign ov (assign (lengthHeader m) ?X)) = keys ?X"
    using k1 by (simp add: keys_assign_absorb set_keys_assign)
  have "keys (assign (lengthHeader m) H) = keys (assign (lengthHeader n) H)"
    by (simp add: assign_def lengthHeader_def DAList.update.rep_eq DAList.empty.rep_eq keys_update)
  then have k3: "keys (assign ov (assign (lengthHeader m) H)) = keys ?X"
    by (rule keys_assign_cong)
  show "keys (extendObject (extendObject H [lengthHeader n, ov]) [lengthHeader m, ov]) =
    keys (extendObject H [lengthHeader m, ov])"
    using k2 k3 by (simp add: extendObject_def)
  show "DAList.lookup (extendObject (extendObject H [lengthHeader n, ov]) [lengthHeader m, ov]) =
    DAList.lookup (extendObject H [lengthHeader m, ov])"
    unfolding lookup_extendObject2 lookup_lengthHeader
    by (rule map_add_absorb) simp
qed

section \<open>The loop over the handlers\<close>

lemma parseUrl_idem [simp]: "parseUrl (parseUrl req) = parseUrl req"
  by (simp add: parseUrl_def)

lemma fst_cannotHandle_index: "fst (cannotHandle b i h req) = fst (cannotHandle b j h req)"
  by (simp add: cannotHandle_def split: option.splits)

lemma cannotHandle_handled [simp]: "cannotHandle True i h req = (True, [])"
  by (simp add: cannotHandle_def)

lemma cannotHandle_events:
  "e \<in> set (snd (cannotHandle b i h req)) \<Longrightarrow> eventIndex e = i"
  by (auto simp: cannotHandle_def split: option.splits if_splits)

lemma respond_index:
  "snd (respond i h req) = snd (respond j h req)"
  by (simp add: respond_def getResponseBody_def getResponseStatus_def
      split: prod.splits option.splits jsval.splits)

lemma respond_events: "e \<in> set (fst (respond i h req)) \<Longrightarrow> eventIndex e = i"
  by (auto simp: respond_def getResponseBody_def getResponseStatus_def
      split: prod.splits option.splits jsval.splits if_splits)

lemma eachHandler_trace_index:
  assumes "e \<in> set (s_trace (fst (eachHandler i h st)))"
  shows "e \<in> set (s_trace st) \<or> eventIndex e = i"
proof -
  from assms have "e \<in> set (s_trace st)
      \<or> e \<in> set (snd (cannotHandle (s_handled st) i h (parseUrl (s_req st))))
      \<or> e \<in> set (fst (respond i h (parseUrl (s_req st))))"
    by (auto simp: eachHandler_def Let_def case_prod_beta split: if_splits)
  then show ?thesis
    using cannotHandle_events respond_events by blast
qed

lemma eachHandler_handled:
  "s_handled st \<Longrightarrow> eachHandler i h st = (st\<lparr>s_req := parseUrl (s_req st)\<rparr>, h)"
  by (simp add: eachHandler_def)

lemma each_handled:
  "s_handled st \<Longrightarrow>
   each i hs st = (st\<lparr>s_req := (if hs = [] then s_req st else parseUrl (s_req st))\<rparr>, hs)"
proof (induction hs arbitrary: i st)
  case Nil
  then show ?case by simp
next
  case (Cons h hs)
  then show ?case by (simp add: eachHandler_handled)
qed

lemma eachHandler_skip:
  "\<not> s_handled st \<Longrightarrow> \<not> matches h (parseUrl (s_req st)) \<Longrightarrow>
   eachHandler i h st =
     (st\<lparr>s_req := parseUrl (s_req st),
         s_trace := s_trace st @ snd (cannotHandle False i h (parseUrl (s_req st)))\<rparr>, h)"
  using fst_cannotHandle_index [of False i h "parseUrl (s_req st)" 0]
  by (simp add: eachHandler_def matches_def Let_def case_prod_beta)

lemma eachHandler_match:
  "\<not> s_handled st \<Longrightarrow> matches h (parseUrl (s_req st)) \<Longrightarrow>
   eachHandler i h st =
     (st\<lparr>s_req := parseUrl (s_req st),
         s_trace := s_trace st @ snd (cannotHandle False i h (parseUrl (s_req st)))
                      @ fst (respond i h (parseUrl (s_req st))),
         s_handled := True,
         s_outcome := fst (snd (respond i h (parseUrl (s_req st))))\<rparr>,
      snd (snd (respond i h (parseUrl (s_req st)))))"
  using fst_cannotHandle_index [of False i h "parseUrl (s_req st)" 0]
  by (simp add: eachHandler_def matches_def Let_def case_prod_beta)

lemma each_append:
  "each i (xs @ ys) st =
     (let (st', xs') = each i xs st; (st'', ys') = each (i + length xs) ys st'
      in (st'', xs' @ ys'))"
  by (induction xs arbitrary: i st) (simp_all split: prod.splits)

lemma each_skip:
  "\<not> s_handled st \<Longrightarrow> \<forall>x\<in>set hs. \<not> matches x (parseUrl (s_req st)) \<Longrightarrow>
   snd (each i hs st) = hs \<and> \<not> s_handled (fst (each i hs st))
   \<and> s_outcome (fst (each i hs st)) = s_outcome st
   \<and> s_req (fst (each i hs st)) = (if hs = [] then s_req st else parseUrl (s_req st))"
proof (induction hs arbitrary: i st)
  case Nil
  then show ?case by simp
next
  case (Cons h hs)
  let ?st1 = "st\<lparr>s_req := parseUrl (s_req st),
         s_trace := s_trace st @ snd (cannotHandle False i h (parseUrl (s_req st)))\<rparr>"
  from Cons.prems have eh: "eachHandler i h st = (?st1, h)"
    by (simp add: eachHandler_skip)
  have "\<not> s_handled ?st1" using Cons.prems by simp
  moreover have "\<forall>x\<in>set hs. \<not> matches x (parseUrl (s_req ?st1))" using Cons.prems by simp
  ultimately have IH: "snd (each (Suc i) hs ?st1) = hs \<and> \<not> s_handled (fst (each (Suc i) hs ?st1))
   \<and> s_outcome (fst (each (Suc i) hs ?st1)) = s_outcome ?st1
   \<and> s_req (fst (each (Suc i) hs ?st1)) = (if hs = [] then s_req ?st1 else parseUrl (s_req ?st1))"
    by (rule Cons.IH)
  then show ?case using eh by (simp add: case_prod_beta split: if_splits)
qed

lemma each_trace_index:
  "e \<in> set (s_trace (fst (each i hs st))) \<Longrightarrow>
   e \<in> set (s_trace st) \<or> (i \<le> eventIndex e \<and> eventIndex e < i + length hs)"
proof (induction hs arbitrary: i st)
  case Nil
  then show ?case by simp
next
  case (Cons h hs)
  obtain st1 h1 where eh: "eachHandler i h st = (st1, h1)" by (cases "eachHandler i h st")
  have step: "\<And>e. e \<in> set (s_trace st1) \<Longrightarrow> e \<in> set (s_trace st) \<or> eventIndex e = i"
    using eh eachHandler_trace_index [of _ i h st] by simp
  from Cons.prems eh have "e \<in> set (s_trace (fst (each (Suc i) hs st1)))"
    by (simp add: case_prod_beta)
  from Cons.IH [OF this] step show ?case by fastforce
qed

lemma eachHandler_req: "s_req (fst (eachHandler i h st)) = parseUrl (s_req st)"
  by (simp add: eachHandler_def Let_def case_prod_beta)

lemma each_req:
  "s_req (fst (each i hs st)) = (if hs = [] then s_req st else parseUrl (s_req st))"
proof (induction hs arbitrary: i st)
  case Nil
  then show ?case by simp
next
  case (Cons h hs)
  show ?case
    using Cons.IH [of "Suc i" "fst (eachHandler i h st)"]
    by (simp add: case_prod_beta eachHandler_req)
qed

lemma each_Cons:
  "each i (h # hs) st =
     (fst (each (Suc i) hs (fst (eachHandler i h st))),
      snd (eachHandler i h st) # snd (each (Suc i) hs (fst (eachHandler i h st))))"
  by (simp add: case_prod_beta)

lemma each_first_match:
  assumes nh: "\<not> s_handled st"
    and pre: "\<forall>x\<in>set pre. \<not> matches x (parseUrl (s_req st))"
    and h: "matches h (parseUrl (s_req st))"
  shows "each i (pre @ h # post) st =
     ((fst (each i pre st))
        \<lparr>s_req := parseUrl (s_req st),
         s_trace := s_trace (fst (each i pre st))
                      @ snd (cannotHandle False (i + length pre) h (parseUrl (s_req st)))
                      @ fst (respond (i + length pre) h (parseUrl (s_req st))),
         s_handled := True,
         s_outcome := fst (snd (respond (i + length pre) h (parseUrl (s_req st))))\<rparr>,
      pre @ snd (snd (respond (i + length pre) h (parseUrl (s_req st)))) # post)"
proof -
  let ?st1 = "fst (each i pre st)"
  let ?req = "parseUrl (s_req st)"
  from each_skip [OF nh pre, of i]
  have s1: "snd (each i pre st) = pre" and nh1: "\<not> s_handled ?st1"
    and r1: "parseUrl (s_req ?st1) = ?req"
    by (simp_all split: if_splits)
  from h r1 have h1: "matches h (parseUrl (s_req ?st1))" by simp
  have eh: "eachHandler (i + length pre) h ?st1 =
     (?st1\<lparr>s_req := ?req,
         s_trace := s_trace ?st1 @ snd (cannotHandle False (i + length pre) h ?req)
                      @ fst (respond (i + length pre) h ?req),
         s_handled := True,
         s_outcome := fst (snd (respond (i + length pre) h ?req))\<rparr>,
      snd (snd (respond (i + length pre) h ?req)))"
    using eachHandler_match [OF nh1 h1, of "i + length pre"] by (simp add: r1)
  show ?thesis
    by (simp add: each_append case_prod_beta s1 each_Cons eh each_handled del: each.simps)
qed


lemma handleMockedRequest_first_match:
  assumes pre: "\<forall>x\<in>set pre. \<not> matches x (parseUrl req)"
    and h: "matches h (parseUrl req)"
  shows "handleMockedRequest (pre @ h # post) req next =
     \<lparr>res_trace = s_trace (fst (each 0 pre
                     \<lparr>s_req = req, s_handled = False, s_trace = [], s_outcome = Pending\<rparr>))
                   @ snd (cannotHandle False (length pre) h (parseUrl req))
                   @ fst (respond (length pre) h (parseUrl req)),
      res_outcome = fst (snd (respond (length pre) h (parseUrl req))),
      res_handlers = pre @ snd (snd (respond (length pre) h (parseUrl req))) # post\<rparr>"
  using each_first_match [of "\<lparr>s_req = req, s_handled = False, s_trace = [], s_outcome = Pending\<rparr>"
      pre h 0 post] pre h
  by (simp add: handleMockedRequest_def)

lemma handleMockedRequest_no_match:
  assumes "\<forall>x\<in>set hs. \<not> matches x (parseUrl req)"
  shows "res_outcome (handleMockedRequest hs req next) = next (if hs = [] then req else parseUrl req)"
    and "res_handlers (handleMockedRequest hs req next) = hs"
  using each_skip [of "\<lparr>s_req = req, s_handled = False, s_trace = [], s_outcome = Pending\<rparr>" hs 0]
    assms
  by (simp_all add: handleMockedRequest_def case_prod_beta)

section \<open>First match, no match, stopping\<close>

lemmas run_defs =
  connectApp_def handleMockedRequest_def eachHandler_def respond_def cannotHandle_def
  parseUrl_def url_pathname_def url_query_def toUpperCase_def upperChar_def
  getResponseBody_def getResponseStatus_def or_else_def sendResponse_def
  extendObject_def assign_def removeNulls_def eachPairs_def arrayLength_def
  lengthHeader_def matches_def DAList.lookup.rep_eq
  handleDefaultRequest_def
  stored_def noReply_def defaultHeaders_def will_def Server_def mockServer_def
  incoming_def replying_def route_def ping_def ping2_def other_def
  filtered_def zero_def field_def echo_def later_def gone_def posted_def custom_def
  lengthy_def overridden_def
  DAList.update.rep_eq DAList.empty.rep_eq DAList.alist_eq_iff Let_def case_prod_beta

text \<open>
  C1. When several handlers match a request, the response is the one of the first of them in
  registration order, and nothing registered after it is invoked or resolved: the calls and
  callbacks are those of the table cut after the first match, none of them belongs to a later
  handler, and the later handlers are left as they were.
\<close>

theorem first_match_wins:
  assumes "\<forall>x\<in>set pre. \<not> matches x (parseUrl req)"
    and "matches h (parseUrl req)"
  shows "res_outcome (handleMockedRequest (pre @ h # post) req next)
           = res_outcome (handleMockedRequest [h] req next)
       \<and> res_trace (handleMockedRequest (pre @ h # post) req next)
           = res_trace (handleMockedRequest (pre @ [h]) req next)
       \<and> (\<forall>e\<in>set (res_trace (handleMockedRequest (pre @ h # post) req next)).
             eventIndex e \<le> length pre)
       \<and> drop (Suc (length pre)) (res_handlers (handleMockedRequest (pre @ h # post) req next))
           = post"
proof -
  note fm = handleMockedRequest_first_match [OF assms]
  have alone: "res_outcome (handleMockedRequest [h] req next) = fst (snd (respond 0 h (parseUrl req)))"
    using handleMockedRequest_first_match [of "[]" req h "[]" "next"] assms(2) by simp
  have out: "res_outcome (handleMockedRequest (pre @ h # post) req next)
           = res_outcome (handleMockedRequest [h] req next)"
    using respond_index [of "length pre" h "parseUrl req" 0] by (simp add: fm alone)
  have tr: "res_trace (handleMockedRequest (pre @ h # post) req next)
           = res_trace (handleMockedRequest (pre @ [h]) req next)"
    by (simp add: fm [of post] fm [of "[]"])
  have idx: "\<forall>e\<in>set (res_trace (handleMockedRequest (pre @ h # post) req next)).
             eventIndex e \<le> length pre"
  proof
    fix e
    assume "e \<in> set (res_trace (handleMockedRequest (pre @ h # post) req next))"
    then have "e \<in> set (res_trace (handleMockedRequest (pre @ [h]) req next))"
      by (simp only: tr)
    then have "e \<in> set (s_trace (fst (each 0 (pre @ [h])
                 \<lparr>s_req = req, s_handled = False, s_trace = [], s_outcome = Pending\<rparr>)))"
      by (simp add: handleMockedRequest_def case_prod_beta)
    from each_trace_index [OF this] show "eventIndex e \<le> length pre" by simp
  qed
  have rest: "drop (Suc (length pre)) (res_handlers (handleMockedRequest (pre @ h # post) req next))
           = post"
    by (simp add: fm)
  from out tr idx rest show ?thesis by blast
qed

theorem first_match_wins_witness:
  "\<not> matches (stored other) (parseUrl (incoming ''GET'' ''/ping''))
   \<and> matches (stored ping) (parseUrl (incoming ''GET'' ''/ping''))
   \<and> matches (stored ping2) (parseUrl (incoming ''GET'' ''/ping''))
   \<and> res_outcome (handleMockedRequest ([stored other] @ stored ping # [stored ping2])
         (incoming ''GET'' ''/ping'') handleDefaultRequest)
       = res_outcome (handleMockedRequest [stored ping] (incoming ''GET'' ''/ping'')
           handleDefaultRequest)
   \<and> sentBody (res_outcome (handleMockedRequest [stored ping] (incoming ''GET'' ''/ping'')
           handleDefaultRequest)) = [JStr ''pong'']
   \<and> res_trace (handleMockedRequest ([stored other] @ stored ping # [stored ping2])
         (incoming ''GET'' ''/ping'') handleDefaultRequest)
       = res_trace (handleMockedRequest ([stored other] @ [stored ping])
           (incoming ''GET'' ''/ping'') handleDefaultRequest)
   \<and> drop (Suc (length [stored other]))
         (res_handlers (handleMockedRequest ([stored other] @ stored ping # [stored ping2])
            (incoming ''GET'' ''/ping'') handleDefaultRequest))
       = [stored ping2]"
proof -
  have a: "\<forall>x\<in>set [stored other]. \<not> matches x (parseUrl (incoming ''GET'' ''/ping''))"
    by (simp add: run_defs)
  have b: "matches (stored ping) (parseUrl (incoming ''GET'' ''/ping''))"
    by (simp add: run_defs)
  have c: "matches (stored ping2) (parseUrl (incoming ''GET'' ''/ping''))"
    by (simp add: run_defs)
  have d: "sentBody (res_outcome (handleMockedRequest [stored ping] (incoming ''GET'' ''/ping'')
           handleDefaultRequest)) = [JStr ''pong'']"
    by (simp add: run_defs)
  from first_match_wins [OF a b, of "[stored ping2]" handleDefaultRequest] a b c d
  show ?thesis by simp
qed

text \<open>
  C2. A request that no registered handler matches, whatever its method and also when the
  table is empty, is answered at once with status 404, the headers
  \<^verbatim>\<open>content-type: plain/text\<close> and \<^verbatim>\<open>content-length: 9\<close>, and the body \<^verbatim>\<open>Not Found\<close>.
\<close>

theorem unmatched_request_not_found:
  assumes "\<forall>x\<in>set (sv_handlers this). \<not> matches x (parseUrl req)"
  shows "\<exists>headers.
           res_outcome (connectApp this req)
             = Response Immediately [WriteHead (JNum 404) headers, End (Some ''Not Found'')]
         \<and> DAList.impl_of headers
             = [(''content-type'', JStr ''plain/text''), (''content-length'', JNum 9)]"
  using handleMockedRequest_no_match(1) [OF assms, of handleDefaultRequest]
  by (simp add: connectApp_def handleDefaultRequest_def DAList.update.rep_eq DAList.empty.rep_eq)

theorem unmatched_request_not_found_witness:
  "sv_handlers (will mockServer ping) = [stored ping]
   \<and> \<not> matches (stored ping) (parseUrl (incoming ''HEAD'' ''/ping''))
   \<and> (\<exists>headers.
         res_outcome (connectApp (will mockServer ping) (incoming ''HEAD'' ''/ping''))
           = Response Immediately [WriteHead (JNum 404) headers, End (Some ''Not Found'')]
       \<and> DAList.impl_of headers
           = [(''content-type'', JStr ''plain/text''), (''content-length'', JNum 9)])"
proof -
  have t: "sv_handlers (will mockServer ping) = [stored ping]"
    by (simp add: will_def mockServer_def Server_def)
  have m: "\<not> matches (stored ping) (parseUrl (incoming ''HEAD'' ''/ping''))"
    by (simp add: run_defs)
  from t m have a: "\<forall>x\<in>set (sv_handlers (will mockServer ping)).
             \<not> matches x (parseUrl (incoming ''HEAD'' ''/ping''))"
    by simp
  from unmatched_request_not_found [OF a] t m show ?thesis by blast
qed

text \<open>
  C9. \<^verbatim>\<open>stop\<close> on a server whose listener is not set (never started, or stopped) calls the
  completion callback at once and does nothing else: the server is left as it was.
\<close>

theorem stop_without_listener:
  assumes "sv_server this = None"
  shows "stop this = (this, [Callback])"
  using assms by (simp add: stop_def)

theorem stop_without_listener_witness:
  "sv_server (will mockServer ping) = None
   \<and> stop (will mockServer ping) = (will mockServer ping, [Callback])"
proof -
  have a: "sv_server (will mockServer ping) = None"
    by (simp add: will_def mockServer_def Server_def)
  from stop_without_listener [OF a] a show ?thesis by simp
qed

section \<open>Filters\<close>

lemma isTrue_iff: "isTrue v \<longleftrightarrow> v = JBool True"
  by (cases v) auto

lemma isFunction_iff: "isFunction v \<longleftrightarrow> (\<exists>n f g. v = JFun n f g)"
  by (cases v) auto

lemma matches_iff:
  "matches h req \<longleftrightarrow>
     (h_when h = ''*'' \<or> req_method req = toUpperCase (h_when h))
     \<and> req_pathname req = h_on h
     \<and> (case h_filter h of None \<Rightarrow> True | Some f \<Rightarrow> f req = JBool True)"
  by (auto simp: matches_def cannotHandle_def isTrue_iff split: option.splits)

lemma eachHandler_index:
  assumes "s_handled st' = s_handled st" and "s_outcome st' = s_outcome st"
    and "parseUrl (s_req st') = parseUrl (s_req st)"
  shows "snd (eachHandler j h st') = snd (eachHandler i h st)"
    and "s_handled (fst (eachHandler j h st')) = s_handled (fst (eachHandler i h st))"
    and "s_outcome (fst (eachHandler j h st')) = s_outcome (fst (eachHandler i h st))"
    and "parseUrl (s_req (fst (eachHandler j h st'))) = parseUrl (s_req (fst (eachHandler i h st)))"
  using assms fst_cannotHandle_index [of "s_handled st" j h "parseUrl (s_req st)" i]
    respond_index [of j h "parseUrl (s_req st)" i]
  by (simp_all add: eachHandler_def Let_def case_prod_beta)

lemma each_index:
  assumes "s_handled st' = s_handled st" and "s_outcome st' = s_outcome st"
    and "parseUrl (s_req st') = parseUrl (s_req st)"
  shows "snd (each j hs st') = snd (each i hs st)
       \<and> s_handled (fst (each j hs st')) = s_handled (fst (each i hs st))
       \<and> s_outcome (fst (each j hs st')) = s_outcome (fst (each i hs st))"
  using assms
proof (induction hs arbitrary: i j st st')
  case Nil
  then show ?case by simp
next
  case (Cons h hs)
  note eh = eachHandler_index [OF Cons.prems, of j h i]
  from Cons.IH [OF eh(2) eh(3) eh(4), of "Suc j" "Suc i"] eh(1)
  show ?case by (simp add: each_Cons del: each.simps)
qed

lemma handleMockedRequest_skip_first:
  assumes "\<not> matches h (parseUrl req)"
  shows "res_outcome (handleMockedRequest (h # rest) req next)
           = res_outcome (handleMockedRequest rest (parseUrl req) next)"
    and "res_handlers (handleMockedRequest (h # rest) req next)
           = h # res_handlers (handleMockedRequest rest (parseUrl req) next)"
proof -
  let ?st0 = "\<lparr>s_req = req, s_handled = False, s_trace = [], s_outcome = Pending\<rparr>"
  let ?st0' = "\<lparr>s_req = parseUrl req, s_handled = False, s_trace = [], s_outcome = Pending\<rparr>"
  let ?st1 = "fst (eachHandler 0 h ?st0)"
  from assms have eh: "eachHandler 0 h ?st0 =
      (?st0\<lparr>s_req := parseUrl req,
            s_trace := snd (cannotHandle False 0 h (parseUrl req))\<rparr>, h)"
    using eachHandler_skip [of ?st0 h 0] by simp
  have ix: "snd (each (Suc 0) rest ?st1) = snd (each 0 rest ?st0')
       \<and> s_handled (fst (each (Suc 0) rest ?st1)) = s_handled (fst (each 0 rest ?st0'))
       \<and> s_outcome (fst (each (Suc 0) rest ?st1)) = s_outcome (fst (each 0 rest ?st0'))"
    by (rule each_index) (simp_all add: eh)
  have rq: "s_req (fst (each (Suc 0) rest ?st1)) = parseUrl req"
    "s_req (fst (each 0 rest ?st0')) = parseUrl req"
    by (simp_all add: each_req eh)
  show "res_outcome (handleMockedRequest (h # rest) req next)
           = res_outcome (handleMockedRequest rest (parseUrl req) next)"
    using ix rq by (simp add: handleMockedRequest_def case_prod_beta each_Cons del: each.simps)
  show "res_handlers (handleMockedRequest (h # rest) req next)
           = h # res_handlers (handleMockedRequest rest (parseUrl req) next)"
    using ix by (simp add: handleMockedRequest_def case_prod_beta each_Cons eh del: each.simps)
qed

text \<open>
  C10. A handler with a filter matches a request only when the filter returns the boolean
  \<^verbatim>\<open>true\<close> itself. With any other return value, truthy ones such as \<^verbatim>\<open>1\<close> or a non-empty
  string included, the handler does not match and the scan goes on with the handlers after
  it, as if the handler were not in the table.
\<close>

theorem filter_must_return_true:
  assumes "h_filter h = Some f"
  shows "(matches h req \<longleftrightarrow>
            (h_when h = ''*'' \<or> req_method req = toUpperCase (h_when h))
            \<and> req_pathname req = h_on h \<and> f req = JBool True)
       \<and> (f (parseUrl req) \<noteq> JBool True \<longrightarrow>
            \<not> matches h (parseUrl req)
            \<and> res_outcome (handleMockedRequest (h # rest) req next)
                = res_outcome (handleMockedRequest rest (parseUrl req) next)
            \<and> res_handlers (handleMockedRequest (h # rest) req next)
                = h # res_handlers (handleMockedRequest rest (parseUrl req) next))"
proof -
  have m: "matches h r \<longleftrightarrow>
            (h_when h = ''*'' \<or> req_method r = toUpperCase (h_when h))
            \<and> req_pathname r = h_on h \<and> f r = JBool True" for r
    using assms by (simp add: matches_iff)
  have "\<not> matches h (parseUrl req)
            \<and> res_outcome (handleMockedRequest (h # rest) req next)
                = res_outcome (handleMockedRequest rest (parseUrl req) next)
            \<and> res_handlers (handleMockedRequest (h # rest) req next)
                = h # res_handlers (handleMockedRequest rest (parseUrl req) next)"
    if "f (parseUrl req) \<noteq> JBool True"
  proof -
    from that m have nm: "\<not> matches h (parseUrl req)" by simp
    from nm handleMockedRequest_skip_first [OF nm] show ?thesis by simp
  qed
  with m show ?thesis by blast
qed


theorem filter_must_return_true_witness:
  "h_filter (stored filtered) = Some (\<lambda>req. JNum 1)
   \<and> truthy (JNum 1)
   \<and> \<not> matches (stored filtered) (parseUrl (incoming ''GET'' ''/ping''))
   \<and> res_outcome (handleMockedRequest (stored filtered # [stored ping])
         (incoming ''GET'' ''/ping'') handleDefaultRequest)
       = res_outcome (handleMockedRequest [stored ping] (parseUrl (incoming ''GET'' ''/ping''))
           handleDefaultRequest)
   \<and> sentBody (res_outcome (handleMockedRequest [stored ping]
         (parseUrl (incoming ''GET'' ''/ping'')) handleDefaultRequest)) = [JStr ''pong'']"
proof -
  have a: "h_filter (stored filtered) = Some (\<lambda>req. JNum 1)"
    by (simp add: stored_def filtered_def Let_def)
  have b: "(\<lambda>req. JNum 1) (parseUrl (incoming ''GET'' ''/ping'')) \<noteq> JBool True"
    by simp
  have c: "sentBody (res_outcome (handleMockedRequest [stored ping]
         (parseUrl (incoming ''GET'' ''/ping'')) handleDefaultRequest)) = [JStr ''pong'']"
    by (simp add: run_defs)
  from filter_must_return_true [OF a, of "incoming ''GET'' ''/ping''" "[stored ping]"
      handleDefaultRequest] a b c
  show ?thesis by simp
qed

section \<open>Resolving body and status: order and values\<close>

lemma each_skip_trace:
  assumes "\<not> s_handled st" and "\<forall>x\<in>set hs. \<not> matches x (parseUrl (s_req st))"
    and "e \<in> set (s_trace (fst (each i hs st)))"
  shows "e \<in> set (s_trace st) \<or> (\<exists>j r. e = FilterInvoked j r)"
  using assms
proof (induction hs arbitrary: i st)
  case Nil
  then show ?case by simp
next
  case (Cons h hs)
  let ?st1 = "st\<lparr>s_req := parseUrl (s_req st),
         s_trace := s_trace st @ snd (cannotHandle False i h (parseUrl (s_req st)))\<rparr>"
  from Cons.prems have eh: "eachHandler i h st = (?st1, h)"
    by (simp add: eachHandler_skip)
  have "e \<in> set (s_trace ?st1) \<or> (\<exists>j r. e = FilterInvoked j r)"
  proof (rule Cons.IH)
    show "\<not> s_handled ?st1" using Cons.prems by simp
    show "\<forall>x\<in>set hs. \<not> matches x (parseUrl (s_req ?st1))" using Cons.prems by simp
    show "e \<in> set (s_trace (fst (each (Suc i) hs ?st1)))"
      using Cons.prems(3) by (simp add: each_Cons eh del: each.simps)
  qed
  then show ?case
    by (auto simp: cannotHandle_def split: if_splits option.splits)
qed

lemma getResponseBody_events: "e \<in> set (fst (getResponseBody i h req)) \<Longrightarrow> isBodyEvent e"
  by (cases "r_body (h_reply h)") (simp_all add: getResponseBody_def split: if_splits)

lemma getResponseStatus_events: "e \<in> set (fst (getResponseStatus i h req)) \<Longrightarrow> isStatusEvent e"
  by (cases "r_status (h_reply h)") (simp_all add: getResponseStatus_def)

lemma respond_order:
  "\<exists>bs ss. fst (respond i h req) = bs @ ss
     \<and> (\<forall>e\<in>set bs. isBodyEvent e) \<and> (\<forall>e\<in>set ss. isStatusEvent e)
     \<and> (ss \<noteq> [] \<longrightarrow> (\<exists>content. bs \<noteq> [] \<and> last bs = BodyResolved i content))"
proof (cases "snd (getResponseBody i h req)")
  case None
  let ?bs = "fst (getResponseBody i h req)"
  show ?thesis
  proof (intro exI conjI)
    show "fst (respond i h req) = ?bs @ []"
      using None by (simp add: respond_def case_prod_beta)
    show "\<forall>e\<in>set ?bs. isBodyEvent e"
      using getResponseBody_events by blast
    show "\<forall>e\<in>set ([] :: event list). isStatusEvent e" by simp
    show "([] :: event list) \<noteq> [] \<longrightarrow> (\<exists>content. ?bs \<noteq> [] \<and> last ?bs = BodyResolved i content)"
      by simp
  qed
next
  case (Some content)
  let ?bs = "fst (getResponseBody i h req) @ [BodyResolved i content]"
  let ?ss = "fst (getResponseStatus i h req) @ [StatusResolved i (snd (getResponseStatus i h req))]"
  show ?thesis
  proof (intro exI conjI)
    show "fst (respond i h req) = ?bs @ ?ss"
      using Some by (simp add: respond_def case_prod_beta)
    show "\<forall>e\<in>set ?bs. isBodyEvent e"
      using getResponseBody_events [of _ i h req] by auto
    show "\<forall>e\<in>set ?ss. isStatusEvent e"
      using getResponseStatus_events [of _ i h req] by auto
    show "?ss \<noteq> [] \<longrightarrow> (\<exists>c. ?bs \<noteq> [] \<and> last ?bs = BodyResolved i c)"
      by simp
  qed
qed

lemma handleMockedRequest_order:
  "\<exists>bs ss. res_trace (handleMockedRequest hs req next) = bs @ ss
     \<and> (\<forall>e\<in>set bs. \<not> isStatusEvent e) \<and> (\<forall>e\<in>set ss. isStatusEvent e)
     \<and> (ss \<noteq> [] \<longrightarrow> (\<exists>j content. bs \<noteq> [] \<and> last bs = BodyResolved j content))"
proof (cases "\<exists>x\<in>set hs. matches x (parseUrl req)")
  case False
  let ?st0 = "\<lparr>s_req = req, s_handled = False, s_trace = [], s_outcome = Pending\<rparr>"
  have "\<forall>e\<in>set (res_trace (handleMockedRequest hs req next)). \<not> isStatusEvent e"
  proof
    fix e
    assume "e \<in> set (res_trace (handleMockedRequest hs req next))"
    then have "e \<in> set (s_trace (fst (each 0 hs ?st0)))"
      by (simp add: handleMockedRequest_def case_prod_beta)
    with False each_skip_trace [of ?st0 hs e 0] have "\<exists>j r. e = FilterInvoked j r"
      by simp
    then show "\<not> isStatusEvent e" by auto
  qed
  then have "res_trace (handleMockedRequest hs req next)
               = res_trace (handleMockedRequest hs req next) @ []
     \<and> (\<forall>e\<in>set (res_trace (handleMockedRequest hs req next)). \<not> isStatusEvent e)
     \<and> (\<forall>e\<in>set ([] :: event list). isStatusEvent e)"
    by simp
  then show ?thesis by blast
next
  case True
  from split_list_first_prop [OF True]
  obtain pre h post where hs: "hs = pre @ h # post" and h: "matches h (parseUrl req)"
    and pre: "\<forall>x\<in>set pre. \<not> matches x (parseUrl req)"
    by blast
  let ?st0 = "\<lparr>s_req = req, s_handled = False, s_trace = [], s_outcome = Pending\<rparr>"
  let ?fs = "s_trace (fst (each 0 pre ?st0)) @ snd (cannotHandle False (length pre) h (parseUrl req))"
  from respond_order [of "length pre" h "parseUrl req"]
  obtain bs ss where r: "fst (respond (length pre) h (parseUrl req)) = bs @ ss"
    and bs: "\<forall>e\<in>set bs. isBodyEvent e" and ss: "\<forall>e\<in>set ss. isStatusEvent e"
    and l: "ss \<noteq> [] \<longrightarrow> (\<exists>content. bs \<noteq> [] \<and> last bs = BodyResolved (length pre) content)"
    by blast
  have fs: "\<forall>e\<in>set ?fs. \<exists>j r. e = FilterInvoked j r"
  proof
    fix e
    assume "e \<in> set ?fs"
    then consider "e \<in> set (s_trace (fst (each 0 pre ?st0)))"
      | "e \<in> set (snd (cannotHandle False (length pre) h (parseUrl req)))"
      by auto
    then show "\<exists>j r. e = FilterInvoked j r"
    proof cases
      case 1
      with pre each_skip_trace [of ?st0 pre e 0] show ?thesis by simp
    next
      case 2
      then show ?thesis by (auto simp: cannotHandle_def split: if_splits option.splits)
    qed
  qed
  have tr: "res_trace (handleMockedRequest hs req next) = (?fs @ bs) @ ss"
    by (simp add: hs handleMockedRequest_first_match [OF pre h] r)
  have nb: "\<forall>e\<in>set (?fs @ bs). \<not> isStatusEvent e"
  proof
    fix e
    assume "e \<in> set (?fs @ bs)"
    then consider "e \<in> set ?fs" | "e \<in> set bs" by auto
    then show "\<not> isStatusEvent e"
    proof cases
      case 1
      with fs have "\<exists>j r. e = FilterInvoked j r" by blast
      then show ?thesis by auto
    next
      case 2
      with bs have "isBodyEvent e" by blast
      then show ?thesis by (cases e) auto
    qed
  qed
  have "ss \<noteq> [] \<longrightarrow> (\<exists>j content. ?fs @ bs \<noteq> [] \<and> last (?fs @ bs) = BodyResolved j content)"
    using l by auto
  with tr nb ss show ?thesis by blast
qed

lemma sentStatus_sendResponse:
  "contentLength content = Some len \<Longrightarrow>
   sentStatus (fst (sendResponse h req content status)) = Some status"
  by (simp add: sendResponse_def Let_def)

text \<open>
  C5. Status resolution. A status that is not a function is used as it is, and a falsy one
  (a literal \<^verbatim>\<open>0\<close> included) resolves to \<^verbatim>\<open>0\<close>; a status function is called with the
  request and its return value is used, a falsy one resolving to \<^verbatim>\<open>0\<close>. The resolved value
  is the status the response is written with, unchanged.
\<close>

theorem status_resolution:
  "(\<not> isFunction (r_status (h_reply h)) \<longrightarrow>
      getResponseStatus i h req
        = ([], if truthy (r_status (h_reply h)) then r_status (h_reply h) else JNum 0))
   \<and> (\<forall>n f g. r_status (h_reply h) = JFun n f g \<longrightarrow>
         getResponseStatus i h req
           = ([StatusInvoked i req], if truthy (f req) then f req else JNum 0))
   \<and> (\<forall>content len.
         snd (getResponseBody i h req) = Some content \<and> contentLength content = Some len \<longrightarrow>
         sentStatus (fst (snd (respond i h req))) = Some (snd (getResponseStatus i h req)))"
proof (intro conjI allI impI)
  assume "\<not> isFunction (r_status (h_reply h))"
  then show "getResponseStatus i h req
        = ([], if truthy (r_status (h_reply h)) then r_status (h_reply h) else JNum 0)"
    by (cases "r_status (h_reply h)") (simp_all add: getResponseStatus_def or_else_def)
next
  fix n f g
  assume "r_status (h_reply h) = JFun n f g"
  then show "getResponseStatus i h req
           = ([StatusInvoked i req], if truthy (f req) then f req else JNum 0)"
    by (simp add: getResponseStatus_def or_else_def)
next
  fix content len
  assume "snd (getResponseBody i h req) = Some content \<and> contentLength content = Some len"
  then show "sentStatus (fst (snd (respond i h req))) = Some (snd (getResponseStatus i h req))"
    by (simp add: respond_def case_prod_beta sentStatus_sendResponse)
qed

theorem status_resolution_witness:
  "r_status (h_reply (stored zero)) = JNum 0
   \<and> getResponseStatus 0 (stored zero) (parseUrl (incoming ''GET'' ''/zero'')) = ([], JNum 0)
   \<and> sentStatus (fst (snd (respond 0 (stored zero) (parseUrl (incoming ''GET'' ''/zero''))))) = Some (JNum 0)
   \<and> getResponseStatus 0 (stored echo) (parseUrl (posted [(''name'', ''Ada'')]))
       = ([StatusInvoked 0 (parseUrl (posted [(''name'', ''Ada'')]))], JNum 0)
   \<and> getResponseStatus 0 (stored echo) (parseUrl (posted [(''code'', ''201'')]))
       = ([StatusInvoked 0 (parseUrl (posted [(''code'', ''201'')]))], JStr ''201'')"
proof -
  let ?r = "parseUrl (incoming ''GET'' ''/zero'')"
  have z: "r_status (h_reply (stored zero)) = JNum 0"
    by (simp add: stored_def zero_def route_def replying_def Let_def)
  have nf: "\<not> isFunction (r_status (h_reply (stored zero)))" by (simp add: z)
  have b: "snd (getResponseBody 0 (stored zero) ?r) = Some (JStr [])
           \<and> contentLength (JStr []) = Some 0"
    by (simp add: getResponseBody_def or_else_def stored_def zero_def route_def replying_def Let_def)
  have e: "r_status (h_reply (stored echo)) = JFun 1 (field ''code'') (\<lambda>req. None)"
    by (simp add: stored_def echo_def route_def replying_def Let_def)
  have f1: "field ''code'' (parseUrl (posted [(''name'', ''Ada'')])) = JUndefined"
    and f2: "field ''code'' (parseUrl (posted [(''code'', ''201'')])) = JStr ''201''"
    by (simp_all add: field_def posted_def parseUrl_def)
  from status_resolution [of "stored zero" 0 ?r] nf z b
  have "getResponseStatus 0 (stored zero) ?r = ([], JNum 0)"
    and "sentStatus (fst (snd (respond 0 (stored zero) ?r))) = Some (JNum 0)"
    by auto
  moreover from status_resolution [of "stored echo" 0 "parseUrl (posted [(''name'', ''Ada'')])"] e f1
  have "getResponseStatus 0 (stored echo) (parseUrl (posted [(''name'', ''Ada'')]))
       = ([StatusInvoked 0 (parseUrl (posted [(''name'', ''Ada'')]))], JNum 0)"
    by simp
  moreover from status_resolution [of "stored echo" 0 "parseUrl (posted [(''code'', ''201'')])"] e f2
  have "getResponseStatus 0 (stored echo) (parseUrl (posted [(''code'', ''201'')]))
       = ([StatusInvoked 0 (parseUrl (posted [(''code'', ''201'')]))], JStr ''201'')"
    by simp
  ultimately show ?thesis using z by simp
qed

lemma sentBody_sendResponse:
  "contentLength content = Some len \<Longrightarrow>
   sentBody (fst (sendResponse h req content status))
     = (if req_method req = ''HEAD'' then [] else [content])"
  by (simp add: sendResponse_def Let_def)

lemma cannotHandle_filter_events:
  "e \<in> set (snd (cannotHandle b i h req)) \<Longrightarrow> \<exists>k q. e = FilterInvoked k q"
  by (auto simp: cannotHandle_def split: if_splits option.splits)

lemma first_match_trace:
  assumes pre: "\<forall>x\<in>set pre. \<not> matches x (parseUrl r)" and h: "matches h (parseUrl r)"
  shows "\<exists>fs. res_trace (handleMockedRequest (pre @ h # post) r next)
                 = fs @ fst (respond (length pre) h (parseUrl r))
              \<and> (\<forall>e\<in>set fs. \<exists>k q. e = FilterInvoked k q)"
proof (intro exI conjI)
  let ?st0 = "\<lparr>s_req = r, s_handled = False, s_trace = [], s_outcome = Pending\<rparr>"
  let ?fs = "s_trace (fst (each 0 pre ?st0)) @ snd (cannotHandle False (length pre) h (parseUrl r))"
  show "res_trace (handleMockedRequest (pre @ h # post) r next)
          = ?fs @ fst (respond (length pre) h (parseUrl r))"
    by (simp add: handleMockedRequest_first_match [OF pre h])
  show "\<forall>e\<in>set ?fs. \<exists>k q. e = FilterInvoked k q"
  proof
    fix e
    assume "e \<in> set ?fs"
    then consider "e \<in> set (s_trace (fst (each 0 pre ?st0)))"
      | "e \<in> set (snd (cannotHandle False (length pre) h (parseUrl r)))"
      by auto
    then show "\<exists>k q. e = FilterInvoked k q"
    proof cases
      case 1
      with pre each_skip_trace [of ?st0 pre e 0] show ?thesis by simp
    next
      case 2
      then show ?thesis by (rule cannotHandle_filter_events)
    qed
  qed
qed

text \<open>
  C6. Body resolution. A body that is not a function is used as it is, a falsy one resolving
  to the empty string; a body function of arity at most 1 is called with the request and its
  return value is used, a falsy one resolving to the empty string; a body function of arity
  2 or more is called with the request and a continuation, and the value handed to the
  continuation is the body. The resolved value is the content the response is built from and
  the body it writes. The status is resolved after the body and only then: when a handler
  answers, the calls and callbacks of the request are filter calls, then the body call and
  the body callback, then the status call and the status callback; as long as the
  continuation is not called, nothing is written and the status is not resolved.
\<close>

theorem body_resolution:
  "(\<not> isFunction (r_body (h_reply h)) \<longrightarrow>
      getResponseBody i h req
        = ([], Some (if truthy (r_body (h_reply h)) then r_body (h_reply h) else JStr [])))
   \<and> (\<forall>n f g. r_body (h_reply h) = JFun n f g \<and> n \<le> 1 \<longrightarrow>
         getResponseBody i h req
           = ([BodyInvoked i req], Some (if truthy (f req) then f req else JStr [])))
   \<and> (\<forall>n f g. r_body (h_reply h) = JFun n f g \<and> 2 \<le> n \<longrightarrow>
         getResponseBody i h req = ([BodyInvokedWithContinuation i req], g req)
         \<and> (g req = None \<longrightarrow>
              respond i h req = ([BodyInvokedWithContinuation i req], Pending, h)))
   \<and> (snd (getResponseBody i h req) = None \<longrightarrow>
         respond i h req = (fst (getResponseBody i h req), Pending, h))
   \<and> (\<forall>content. snd (getResponseBody i h req) = Some content \<longrightarrow>
         fst (respond i h req)
           = fst (getResponseBody i h req) @ [BodyResolved i content]
             @ fst (getResponseStatus i h req)
             @ [StatusResolved i (snd (getResponseStatus i h req))]
         \<and> snd (respond i h req) = sendResponse h req content (snd (getResponseStatus i h req))
         \<and> (\<forall>len. contentLength content = Some len \<longrightarrow>
               sentBody (fst (snd (respond i h req)))
                 = (if req_method req = ''HEAD'' then [] else [content])))
   \<and> ((\<forall>x\<in>set pre. \<not> matches x (parseUrl r)) \<and> matches h (parseUrl r) \<longrightarrow>
         (\<exists>fs. res_trace (handleMockedRequest (pre @ h # post) r next)
                  = fs @ fst (respond (length pre) h (parseUrl r))
               \<and> (\<forall>e\<in>set fs. \<exists>k q. e = FilterInvoked k q))
         \<and> res_outcome (handleMockedRequest (pre @ h # post) r next)
             = fst (snd (respond (length pre) h (parseUrl r))))
   \<and> (\<exists>bs ss. res_trace (handleMockedRequest hs r next) = bs @ ss
         \<and> (\<forall>e\<in>set bs. \<not> isStatusEvent e) \<and> (\<forall>e\<in>set ss. isStatusEvent e)
         \<and> (ss \<noteq> [] \<longrightarrow> (\<exists>j content. bs \<noteq> [] \<and> last bs = BodyResolved j content)))"
proof -
  have a: "getResponseBody i h req
        = ([], Some (if truthy (r_body (h_reply h)) then r_body (h_reply h) else JStr []))"
    if "\<not> isFunction (r_body (h_reply h))"
    using that by (cases "r_body (h_reply h)") (simp_all add: getResponseBody_def or_else_def)
  have b: "getResponseBody i h req
           = ([BodyInvoked i req], Some (if truthy (f req) then f req else JStr []))"
    if "r_body (h_reply h) = JFun n f g \<and> n \<le> 1" for n f g
    using that by (simp add: getResponseBody_def or_else_def)
  have c: "getResponseBody i h req = ([BodyInvokedWithContinuation i req], g req)
         \<and> (g req = None \<longrightarrow>
              respond i h req = ([BodyInvokedWithContinuation i req], Pending, h))"
    if "r_body (h_reply h) = JFun n f g \<and> 2 \<le> n" for n f g
    using that by (simp add: getResponseBody_def respond_def)
  have d: "respond i h req = (fst (getResponseBody i h req), Pending, h)"
    if "snd (getResponseBody i h req) = None"
    using that by (simp add: respond_def case_prod_beta)
  have e: "fst (respond i h req)
           = fst (getResponseBody i h req) @ [BodyResolved i content]
             @ fst (getResponseStatus i h req)
             @ [StatusResolved i (snd (getResponseStatus i h req))]
         \<and> snd (respond i h req) = sendResponse h req content (snd (getResponseStatus i h req))
         \<and> (\<forall>len. contentLength content = Some len \<longrightarrow>
               sentBody (fst (snd (respond i h req)))
                 = (if req_method req = ''HEAD'' then [] else [content]))"
    if "snd (getResponseBody i h req) = Some content" for content
    using that by (simp add: respond_def case_prod_beta sentBody_sendResponse)
  have f: "(\<exists>fs. res_trace (handleMockedRequest (pre @ h # post) r next)
                  = fs @ fst (respond (length pre) h (parseUrl r))
               \<and> (\<forall>e\<in>set fs. \<exists>k q. e = FilterInvoked k q))
         \<and> res_outcome (handleMockedRequest (pre @ h # post) r next)
             = fst (snd (respond (length pre) h (parseUrl r)))"
    if "(\<forall>x\<in>set pre. \<not> matches x (parseUrl r)) \<and> matches h (parseUrl r)"
  proof -
    from that have p: "\<forall>x\<in>set pre. \<not> matches x (parseUrl r)" and m: "matches h (parseUrl r)"
      by simp_all
    from first_match_trace [OF p m, of post "next"]
      handleMockedRequest_first_match [OF p m, of post "next"]
    show ?thesis by simp
  qed
  note g = handleMockedRequest_order [of hs r "next"]
  show ?thesis
  proof (intro conjI)
    show "\<not> isFunction (r_body (h_reply h)) \<longrightarrow>
      getResponseBody i h req
        = ([], Some (if truthy (r_body (h_reply h)) then r_body (h_reply h) else JStr []))"
      using a by blast
    show "\<forall>n f g. r_body (h_reply h) = JFun n f g \<and> n \<le> 1 \<longrightarrow>
         getResponseBody i h req
           = ([BodyInvoked i req], Some (if truthy (f req) then f req else JStr []))"
      using b by blast
    show "\<forall>n f g. r_body (h_reply h) = JFun n f g \<and> 2 \<le> n \<longrightarrow>
         getResponseBody i h req = ([BodyInvokedWithContinuation i req], g req)
         \<and> (g req = None \<longrightarrow>
              respond i h req = ([BodyInvokedWithContinuation i req], Pending, h))"
      using c by blast
    show "snd (getResponseBody i h req) = None \<longrightarrow>
         respond i h req = (fst (getResponseBody i h req), Pending, h)"
      using d by blast
    show "\<forall>content. snd (getResponseBody i h req) = Some content \<longrightarrow>
         fst (respond i h req)
           = fst (getResponseBody i h req) @ [BodyResolved i content]
             @ fst (getResponseStatus i h req)
             @ [StatusResolved i (snd (getResponseStatus i h req))]
         \<and> snd (respond i h req) = sendResponse h req content (snd (getResponseStatus i h req))
         \<and> (\<forall>len. contentLength content = Some len \<longrightarrow>
               sentBody (fst (snd (respond i h req)))
                 = (if req_method req = ''HEAD'' then [] else [content]))"
      using e by blast
    show "(\<forall>x\<in>set pre. \<not> matches x (parseUrl r)) \<and> matches h (parseUrl r) \<longrightarrow>
         (\<exists>fs. res_trace (handleMockedRequest (pre @ h # post) r next)
                  = fs @ fst (respond (length pre) h (parseUrl r))
               \<and> (\<forall>e\<in>set fs. \<exists>k q. e = FilterInvoked k q))
         \<and> res_outcome (handleMockedRequest (pre @ h # post) r next)
             = fst (snd (respond (length pre) h (parseUrl r)))"
      using f by blast
    show "\<exists>bs ss. res_trace (handleMockedRequest hs r next) = bs @ ss
         \<and> (\<forall>e\<in>set bs. \<not> isStatusEvent e) \<and> (\<forall>e\<in>set ss. isStatusEvent e)
         \<and> (ss \<noteq> [] \<longrightarrow> (\<exists>j content. bs \<noteq> [] \<and> last bs = BodyResolved j content))"
      by (rule g)
  qed
qed

theorem body_resolution_witness:
  "getResponseBody 0 (stored zero) (incoming ''GET'' ''/zero'') = ([], Some (JStr []))
   \<and> getResponseBody 1 (stored echo) (parseUrl (posted [])) 
       = ([BodyInvoked 1 (parseUrl (posted []))], Some (JStr []))
   \<and> \<not> matches (stored other) (parseUrl (posted [(''name'', ''Ada'')]))
   \<and> matches (stored echo) (parseUrl (posted [(''name'', ''Ada'')]))
   \<and> res_trace (handleMockedRequest ([stored other] @ stored echo # [stored ping2])
         (posted [(''name'', ''Ada'')]) handleDefaultRequest)
       = [BodyInvoked 1 (parseUrl (posted [(''name'', ''Ada'')])),
          BodyResolved 1 (JStr ''Ada''),
          StatusInvoked 1 (parseUrl (posted [(''name'', ''Ada'')])),
          StatusResolved 1 (JNum 0)]
   \<and> sentBody (res_outcome (handleMockedRequest ([stored other] @ stored echo # [stored ping2])
         (posted [(''name'', ''Ada'')]) handleDefaultRequest)) = [JStr ''Ada'']
   \<and> matches (stored later) (parseUrl (incoming ''GET'' ''/later''))
   \<and> res_trace (handleMockedRequest ([] @ stored later # [])
         (incoming ''GET'' ''/later'') handleDefaultRequest)
       = [BodyInvokedWithContinuation 0 (parseUrl (incoming ''GET'' ''/later'')),
          BodyResolved 0 (JStr ''late''),
          StatusResolved 0 (JNum 200)]
   \<and> sentBody (res_outcome (handleMockedRequest ([] @ stored later # [])
         (incoming ''GET'' ''/later'') handleDefaultRequest)) = [JStr ''late'']
   \<and> matches (stored later) (parseUrl (incoming ''PUT'' ''/later''))
   \<and> res_trace (handleMockedRequest ([] @ stored later # [])
         (incoming ''PUT'' ''/later'') handleDefaultRequest)
       = [BodyInvokedWithContinuation 0 (parseUrl (incoming ''PUT'' ''/later''))]
   \<and> res_outcome (handleMockedRequest ([] @ stored later # [])
         (incoming ''PUT'' ''/later'') handleDefaultRequest) = Pending"
proof -
  let ?ada = "parseUrl (posted [(''name'', ''Ada'')])"
  let ?get = "parseUrl (incoming ''GET'' ''/later'')"
  let ?put = "parseUrl (incoming ''PUT'' ''/later'')"
  have z: "r_body (h_reply (stored zero)) = JNull"
    by (simp add: stored_def zero_def route_def replying_def Let_def)
  have eb: "r_body (h_reply (stored echo)) = JFun 1 (field ''name'') (\<lambda>req. None) \<and> (1::nat) \<le> 1"
    and es: "r_status (h_reply (stored echo)) = JFun 1 (field ''code'') (\<lambda>req. None)"
    by (simp_all add: stored_def echo_def route_def replying_def Let_def)
  have lb: "r_body (h_reply (stored later))
             = JFun 2 (\<lambda>req. JUndefined)
                 (\<lambda>req. if req_method req = ''GET'' then Some (JStr ''late'') else None)
           \<and> (2::nat) \<le> 2"
    and ls: "r_status (h_reply (stored later)) = JNum 200"
    by (simp_all add: stored_def later_def route_def replying_def Let_def)
  have fl: "field ''name'' ?ada = JStr ''Ada''" "field ''code'' ?ada = JUndefined"
    "field ''name'' (parseUrl (posted [])) = JUndefined"
    by (simp_all add: field_def posted_def parseUrl_def)
  have me: "req_method ?ada \<noteq> ''HEAD''" "req_method ?get = ''GET''" "req_method ?get \<noteq> ''HEAD''"
    "req_method ?put \<noteq> ''GET''"
    by (simp_all add: posted_def incoming_def parseUrl_def)
  have m1: "\<forall>x\<in>set [stored other]. \<not> matches x ?ada" and m2: "matches (stored echo) ?ada"
    and m3: "matches (stored later) ?get" and m4: "matches (stored later) ?put"
    and m0: "\<forall>x\<in>set ([] :: handler list). \<not> matches x ?get"
      "\<forall>x\<in>set ([] :: handler list). \<not> matches x ?put"
    by (simp_all add: run_defs)
  have st: "getResponseStatus 1 (stored echo) ?ada = ([StatusInvoked 1 ?ada], JNum 0)"
    "getResponseStatus 0 (stored later) ?get = ([], JNum 200)"
    by (simp_all add: getResponseStatus_def or_else_def es ls fl)
  \<comment> \<open>a literal body\<close>
  from body_resolution [of "stored zero" 0 "incoming ''GET'' ''/zero''" "[]"
      "incoming ''GET'' ''/zero''" "[]" handleDefaultRequest "[]"]
  have "\<not> isFunction (r_body (h_reply (stored zero))) \<longrightarrow>
      getResponseBody 0 (stored zero) (incoming ''GET'' ''/zero'')
        = ([], Some (if truthy (r_body (h_reply (stored zero)))
                     then r_body (h_reply (stored zero)) else JStr []))"
    by blast
  with z have 1: "getResponseBody 0 (stored zero) (incoming ''GET'' ''/zero'') = ([], Some (JStr []))"
    by simp
  \<comment> \<open>a synchronous body function\<close>
  from body_resolution [of "stored echo" 1 "parseUrl (posted [])" "[]" "posted []" "[]"
      handleDefaultRequest "[]"] eb
  have "getResponseBody 1 (stored echo) (parseUrl (posted []))
       = ([BodyInvoked 1 (parseUrl (posted []))],
          Some (if truthy (field ''name'' (parseUrl (posted [])))
                then field ''name'' (parseUrl (posted [])) else JStr []))"
    by blast
  with fl have 2: "getResponseBody 1 (stored echo) (parseUrl (posted []))
       = ([BodyInvoked 1 (parseUrl (posted []))], Some (JStr []))"
    by simp
  note ra = body_resolution [of "stored echo" 1 ?ada "[stored other]"
      "posted [(''name'', ''Ada'')]" "[stored ping2]" handleDefaultRequest
      "[stored other] @ stored echo # [stored ping2]"]
  from ra eb have "getResponseBody 1 (stored echo) ?ada
       = ([BodyInvoked 1 ?ada],
          Some (if truthy (field ''name'' ?ada) then field ''name'' ?ada else JStr []))"
    by blast
  with fl have ba: "getResponseBody 1 (stored echo) ?ada
                      = ([BodyInvoked 1 ?ada], Some (JStr ''Ada''))"
    by simp
  then have ba': "snd (getResponseBody 1 (stored echo) ?ada) = Some (JStr ''Ada'')"
    by simp
  from ra ba' have "fst (respond 1 (stored echo) ?ada)
           = fst (getResponseBody 1 (stored echo) ?ada) @ [BodyResolved 1 (JStr ''Ada'')]
             @ fst (getResponseStatus 1 (stored echo) ?ada)
             @ [StatusResolved 1 (snd (getResponseStatus 1 (stored echo) ?ada))]"
    and "\<forall>len. contentLength (JStr ''Ada'') = Some len \<longrightarrow>
               sentBody (fst (snd (respond 1 (stored echo) ?ada)))
                 = (if req_method ?ada = ''HEAD'' then [] else [JStr ''Ada''])"
    by blast+
  with ba st me have ta: "fst (respond 1 (stored echo) ?ada)
                   = [BodyInvoked 1 ?ada, BodyResolved 1 (JStr ''Ada''),
                      StatusInvoked 1 ?ada, StatusResolved 1 (JNum 0)]"
    and sa: "sentBody (fst (snd (respond 1 (stored echo) ?ada))) = [JStr ''Ada'']"
    by simp_all
  have pa: "res_trace (handleMockedRequest ([stored other] @ stored echo # [stored ping2])
               (posted [(''name'', ''Ada'')]) handleDefaultRequest)
             = fst (respond 1 (stored echo) ?ada)"
    by (simp add: handleMockedRequest_first_match [OF m1 m2] run_defs)
  from ra m1 m2 have "res_outcome (handleMockedRequest
               ([stored other] @ stored echo # [stored ping2])
               (posted [(''name'', ''Ada'')]) handleDefaultRequest)
             = fst (snd (respond (length [stored other]) (stored echo) ?ada))"
    by blast
  then have oa: "res_outcome (handleMockedRequest
               ([stored other] @ stored echo # [stored ping2])
               (posted [(''name'', ''Ada'')]) handleDefaultRequest)
             = fst (snd (respond 1 (stored echo) ?ada))"
    by simp
  \<comment> \<open>a body function with a continuation that is called\<close>
  note rg = body_resolution [of "stored later" 0 ?get "[]" "incoming ''GET'' ''/later''" "[]"
      handleDefaultRequest "[stored later]"]
  from rg lb have "getResponseBody 0 (stored later) ?get
       = ([BodyInvokedWithContinuation 0 ?get],
          (\<lambda>req. if req_method req = ''GET'' then Some (JStr ''late'') else None) ?get)"
    by blast
  with me have bg: "getResponseBody 0 (stored later) ?get
                      = ([BodyInvokedWithContinuation 0 ?get], Some (JStr ''late''))"
    by simp
  then have bg': "snd (getResponseBody 0 (stored later) ?get) = Some (JStr ''late'')"
    by simp
  from rg bg' have "fst (respond 0 (stored later) ?get)
           = fst (getResponseBody 0 (stored later) ?get) @ [BodyResolved 0 (JStr ''late'')]
             @ fst (getResponseStatus 0 (stored later) ?get)
             @ [StatusResolved 0 (snd (getResponseStatus 0 (stored later) ?get))]"
    and "\<forall>len. contentLength (JStr ''late'') = Some len \<longrightarrow>
               sentBody (fst (snd (respond 0 (stored later) ?get)))
                 = (if req_method ?get = ''HEAD'' then [] else [JStr ''late''])"
    by blast+
  with bg st me have tg: "fst (respond 0 (stored later) ?get)
                   = [BodyInvokedWithContinuation 0 ?get, BodyResolved 0 (JStr ''late''),
                      StatusResolved 0 (JNum 200)]"
    and sg: "sentBody (fst (snd (respond 0 (stored later) ?get))) = [JStr ''late'']"
    by simp_all
  have pg: "res_trace (handleMockedRequest ([] @ stored later # [])
               (incoming ''GET'' ''/later'') handleDefaultRequest)
             = fst (respond 0 (stored later) ?get)"
    by (simp add: handleMockedRequest_first_match [OF m0(1) m3] run_defs)
  from rg m0(1) m3 have "res_outcome (handleMockedRequest ([] @ stored later # [])
               (incoming ''GET'' ''/later'') handleDefaultRequest)
             = fst (snd (respond (length ([] :: handler list)) (stored later) ?get))"
    by blast
  then have og: "res_outcome (handleMockedRequest ([] @ stored later # [])
               (incoming ''GET'' ''/later'') handleDefaultRequest)
             = fst (snd (respond 0 (stored later) ?get))"
    by simp
  \<comment> \<open>a body function with a continuation that is never called\<close>
  note rp = body_resolution [of "stored later" 0 ?put "[]" "incoming ''PUT'' ''/later''" "[]"
      handleDefaultRequest "[stored later]"]
  from rp lb have "(\<lambda>req. if req_method req = ''GET'' then Some (JStr ''late'') else None) ?put
                     = None \<longrightarrow>
       respond 0 (stored later) ?put
         = ([BodyInvokedWithContinuation 0 ?put], Pending, stored later)"
    by blast
  with me have tp: "respond 0 (stored later) ?put
                      = ([BodyInvokedWithContinuation 0 ?put], Pending, stored later)"
    by simp
  have pp: "res_trace (handleMockedRequest ([] @ stored later # [])
               (incoming ''PUT'' ''/later'') handleDefaultRequest)
             = fst (respond 0 (stored later) ?put)"
    by (simp add: handleMockedRequest_first_match [OF m0(2) m4] run_defs)
  from rp m0(2) m4 have "res_outcome (handleMockedRequest ([] @ stored later # [])
               (incoming ''PUT'' ''/later'') handleDefaultRequest)
             = fst (snd (respond (length ([] :: handler list)) (stored later) ?put))"
    by blast
  then have op: "res_outcome (handleMockedRequest ([] @ stored later # [])
               (incoming ''PUT'' ''/later'') handleDefaultRequest)
             = fst (snd (respond 0 (stored later) ?put))"
    by simp
  from m1 have m1': "\<not> matches (stored other) ?ada" by simp
  show ?thesis
    unfolding pa pg pp oa og op ta tg tp sa sg
    using 1 2 m1' m2 m3 m4 by simp
qed

section \<open>Headers\<close>

lemma lookup_stored_headers:
  "DAList.lookup (r_headers (h_reply (stored d)))
     = [''content-type'' \<mapsto> JStr ''application/json''] ++ givenHeaders d"
proof -
  have dh: "DAList.lookup defaultHeaders = [''content-type'' \<mapsto> JStr ''application/json'']"
    by (rule ext) (simp add: defaultHeaders_def DAList.lookup_update)
  have e: "DAList.lookup (DAList.empty :: object) = Map.empty"
    by (rule ext) simp
  show ?thesis
    by (simp add: stored_def Let_def lookup_extendObject2 dh e givenHeaders_def noReply_def
        split: option.splits)
qed

lemma overrides_stored:
  "DAList.lookup (case r_headersOverrides (h_reply (stored d)) of
                    None \<Rightarrow> DAList.empty | Some ov \<Rightarrow> ov) = givenOverrides d"
proof -
  have e: "DAList.lookup (DAList.empty :: object) = Map.empty"
    by (rule ext) simp
  show ?thesis
    by (simp add: stored_def Let_def givenOverrides_def noReply_def e split: option.splits)
qed

lemma sendResponse_length:
  assumes "contentLength content = Some len"
  shows "sendResponse h req content status =
     (Response (AfterTimeout (case h_delay h of None \<Rightarrow> 0 | Some d \<Rightarrow> d))
        ([WriteHead status (removeNulls (r_headers (h_reply (mergedHeaders h len))))]
         @ (if req_method req \<noteq> ''HEAD''
            then [Write content (if isBuffer content then None else Some ''utf8'')] else [])
         @ [End None]),
      mergedHeaders h len)"
  using assms by (simp add: sendResponse_def mergedHeaders_def Let_def)

lemma sendResponse_no_length:
  "contentLength content = None \<Longrightarrow> sendResponse h req content status = (Throws, h)"
  by (simp add: sendResponse_def)

lemma mergedHeaders_absorb: "mergedHeaders (mergedHeaders h m) n = mergedHeaders h n"
  by (simp add: mergedHeaders_def extend_absorb)

lemma mergedHeaders_fields:
  "h_on (mergedHeaders h n) = h_on h" "h_when (mergedHeaders h n) = h_when h"
  "h_filter (mergedHeaders h n) = h_filter h" "h_delay (mergedHeaders h n) = h_delay h"
  "r_status (h_reply (mergedHeaders h n)) = r_status (h_reply h)"
  "r_body (h_reply (mergedHeaders h n)) = r_body (h_reply h)"
  "r_headersOverrides (h_reply (mergedHeaders h n)) = r_headersOverrides (h_reply h)"
  by (simp_all add: mergedHeaders_def)

lemma sendResponse_merged:
  "fst (sendResponse (mergedHeaders h m) req content status) = fst (sendResponse h req content status)"
proof (cases "contentLength content")
  case None
  then show ?thesis by (simp add: sendResponse_no_length)
next
  case (Some len)
  then show ?thesis
    by (simp add: sendResponse_length mergedHeaders_absorb mergedHeaders_fields)
qed

lemma snd_sendResponse:
  "snd (sendResponse h req content status) = h
   \<or> (\<exists>len. snd (sendResponse h req content status) = mergedHeaders h len)"
  by (cases "contentLength content") (auto simp: sendResponse_length sendResponse_no_length)

lemma responded_cases:
  "responded h earlier = h \<or> (\<exists>len. responded h earlier = mergedHeaders h len)"
proof (induction earlier rule: rev_induct)
  case Nil
  then show ?case by (simp add: responded_def)
next
  case (snoc e earlier)
  obtain req content status where e: "e = (req, content, status)" by (cases e)
  have step: "responded h (earlier @ [e])
                = snd (sendResponse (responded h earlier) req content status)"
    by (simp add: responded_def e)
  from snd_sendResponse [of "responded h earlier" req content status] snoc.IH
  show ?case unfolding step
    by (auto simp: mergedHeaders_absorb)
qed

lemma sendResponse_responded:
  "fst (sendResponse (responded h earlier) req content status)
     = fst (sendResponse h req content status)"
  using responded_cases [of h earlier] by (auto simp: sendResponse_merged)

lemma lookup_merged:
  "DAList.lookup (r_headers (h_reply (mergedHeaders h len)))
     = DAList.lookup (r_headers (h_reply h)) ++ [''content-length'' \<mapsto> JNum (int len)]
       ++ (case r_headersOverrides (h_reply h) of
             None \<Rightarrow> Map.empty | Some ov \<Rightarrow> DAList.lookup ov)"
proof -
  have e: "DAList.lookup (DAList.empty :: object) = Map.empty"
    by (rule ext) simp
  show ?thesis
    by (simp add: mergedHeaders_def lookup_extendObject2 lookup_lengthHeader e
        split: option.splits)
qed

lemma arrayLength_merged:
  assumes "\<not> namesLength h"
  shows "arrayLength (r_headers (h_reply (mergedHeaders h len))) = None"
proof -
  have eq: "DAList.lookup (r_headers (h_reply (mergedHeaders h len))) ''length''
          = (DAList.lookup (r_headers (h_reply h))
             ++ (case r_headersOverrides (h_reply h) of
                   None \<Rightarrow> Map.empty | Some ov \<Rightarrow> DAList.lookup ov)) ''length''"
    by (cases "r_headersOverrides (h_reply h)")
      (simp_all add: lookup_merged map_add_def split: option.splits)
  from assms have nn: "\<forall>n. (DAList.lookup (r_headers (h_reply h))
             ++ (case r_headersOverrides (h_reply h) of
                   None \<Rightarrow> Map.empty | Some ov \<Rightarrow> DAList.lookup ov)) ''length'' \<noteq> Some (JNum n)"
    unfolding namesLength_def by (auto split: option.splits jsval.splits)
  show ?thesis
    unfolding arrayLength_def eq using nn by (auto split: option.splits jsval.splits)
qed

lemma overrides_stored_lookup:
  "(case r_headersOverrides (h_reply (stored d)) of
      None \<Rightarrow> Map.empty | Some ov \<Rightarrow> DAList.lookup ov) = givenOverrides d"
  by (simp add: stored_def Let_def givenOverrides_def noReply_def split: option.splits)


text \<open>
  The header law for a handler that has no numeric entry named \<^verbatim>\<open>length\<close>: the headers sent
  with a body of \<open>len\<close> bytes are, as a mapping, the default content type, overridden by the
  handler's headers as registered, by the computed content length and by the handler's
  \<^verbatim>\<open>headersOverrides\<close>, without the keys whose value is \<^verbatim>\<open>null\<close>; also after earlier
  responses of the handler.
\<close>

lemma header_law:
  assumes "contentLength content = Some len"
    and "\<not> namesLength (stored d)"
  shows "\<exists>headersToSend.
           sentHeaders (fst (sendResponse (responded (stored d) earlier) req content status))
             = Some headersToSend
         \<and> DAList.lookup headersToSend = specHeaders d len"
proof -
  have "DAList.lookup (removeNulls (r_headers (h_reply (mergedHeaders (stored d) len))))
          = specHeaders d len"
    by (simp add: lookup_removeNulls [OF arrayLength_merged [OF assms(2)]] lookup_merged
        lookup_stored_headers overrides_stored_lookup specHeaders_def)
  moreover have "fst (sendResponse (responded (stored d) earlier) req content status)
                   = fst (sendResponse (stored d) req content status)"
    by (rule sendResponse_responded)
  ultimately show ?thesis
    using assms(1) by (simp add: sendResponse_length)
qed

text \<open>
  C3. The headers a matched handler sends should be the default content type, overridden by
  the handler's headers, by the computed content length and by its \<^verbatim>\<open>headersOverrides\<close>,
  without the keys whose value is \<^verbatim>\<open>null\<close>. The program breaks this law for a handler with
  a header named \<^verbatim>\<open>length\<close> whose value is a number: registered with
  \<^verbatim>\<open>{on: "/length", reply: {body: "abc", headers: {"length": 1}}}\<close>, it answers
  \<^verbatim>\<open>GET /length\<close> with the single header \<^verbatim>\<open>"0": undefined\<close>, where the law gives
  \<^verbatim>\<open>content-type: application/json\<close>, \<^verbatim>\<open>length: 1\<close> and \<^verbatim>\<open>content-length: 3\<close>.
\<close>

theorem length_header_breaks_law:
  "\<exists>headersToSend.
     sentHeaders (res_outcome (connectApp (will mockServer lengthy) (incoming ''GET'' ''/length'')))
       = Some headersToSend
     \<and> DAList.impl_of headersToSend = [(''0'', JUndefined)]
     \<and> contentLength (JStr ''abc'') = Some 3
     \<and> specHeaders lengthy 3 ''content-type'' = Some (JStr ''application/json'')
     \<and> specHeaders lengthy 3 ''length'' = Some (JNum 1)
     \<and> specHeaders lengthy 3 ''content-length'' = Some (JNum 3)
     \<and> specHeaders lengthy 3 ''0'' = None"
proof -
  have "sentHeaders (res_outcome (connectApp (will mockServer lengthy)
                       (incoming ''GET'' ''/length'')))
          = Some (DAList.update ''0'' JUndefined DAList.empty)"
    by (simp add: run_defs)
  moreover have "DAList.impl_of (DAList.update ''0'' JUndefined DAList.empty :: object)
                   = [(''0'', JUndefined)]"
    by (simp add: DAList.update.rep_eq DAList.empty.rep_eq)
  moreover have "specHeaders lengthy 3 ''content-type'' = Some (JStr ''application/json'')"
    "specHeaders lengthy 3 ''length'' = Some (JNum 1)"
    "specHeaders lengthy 3 ''content-length'' = Some (JNum 3)"
    "specHeaders lengthy 3 ''0'' = None"
    by (simp_all add: specHeaders_def withoutNulls_def givenHeaders_def givenOverrides_def
        lengthy_def route_def DAList.lookup_update map_add_def)
  ultimately show ?thesis by simp
qed

theorem length_header_breaks_law_witness:
  "\<exists>headersToSend.
     sentHeaders (res_outcome (connectApp (will mockServer lengthy) (incoming ''GET'' ''/length'')))
       = Some headersToSend
     \<and> DAList.lookup headersToSend ''content-length'' = None
     \<and> specHeaders lengthy 3 ''content-length'' = Some (JNum 3)"
proof -
  from length_header_breaks_law obtain headersToSend where
    s: "sentHeaders (res_outcome (connectApp (will mockServer lengthy)
                       (incoming ''GET'' ''/length''))) = Some headersToSend"
    and i: "DAList.impl_of headersToSend = [(''0'', JUndefined)]"
    and l: "specHeaders lengthy 3 ''content-length'' = Some (JNum 3)"
    by blast
  from i have "DAList.lookup headersToSend ''content-length'' = None"
    by (simp add: DAList.lookup.rep_eq)
  with s l show ?thesis by blast
qed






section \<open>What serving requests changes in the table\<close>

lemma snd_respond_cases:
  "snd (snd (respond i h req)) = h \<or> (\<exists>len. snd (snd (respond i h req)) = mergedHeaders h len)"
proof (cases "snd (getResponseBody i h req)")
  case None
  then show ?thesis by (simp add: respond_def case_prod_beta)
next
  case (Some content)
  with snd_sendResponse [of h req content "snd (getResponseStatus i h req)"]
  show ?thesis by (simp add: respond_def case_prod_beta)
qed

lemma snd_eachHandler_cases:
  "snd (eachHandler i h st) = h \<or> (\<exists>len. snd (eachHandler i h st) = mergedHeaders h len)"
  using snd_respond_cases [of i h "parseUrl (s_req st)"]
  by (simp add: eachHandler_def Let_def case_prod_beta)

lemma merged_step:
  assumes "h = h0 \<or> (\<exists>len. h = mergedHeaders h0 len)"
    and "h' = h \<or> (\<exists>len. h' = mergedHeaders h len)"
  shows "h' = h0 \<or> (\<exists>len. h' = mergedHeaders h0 len)"
  using assms by (auto simp: mergedHeaders_absorb)

lemma each_merged:
  assumes "list_all2 (\<lambda>h0 h. h = h0 \<or> (\<exists>len. h = mergedHeaders h0 len)) hs0 hs"
  shows "list_all2 (\<lambda>h0 h. h = h0 \<or> (\<exists>len. h = mergedHeaders h0 len)) hs0 (snd (each i hs st))"
  using assms
proof (induction hs0 hs arbitrary: i st rule: list_all2_induct)
  case Nil
  then show ?case by simp
next
  case (Cons h0 hs0 h hs)
  have "snd (eachHandler i h st) = h0 \<or> (\<exists>len. snd (eachHandler i h st) = mergedHeaders h0 len)"
    using Cons.hyps(1) snd_eachHandler_cases [of i h st] by (rule merged_step)
  with Cons.IH [of "Suc i" "fst (eachHandler i h st)"] show ?case
    by (simp add: each_Cons del: each.simps)
qed

lemma serve_merged:
  assumes "list_all2 (\<lambda>h0 h. h = h0 \<or> (\<exists>len. h = mergedHeaders h0 len)) hs0 (sv_handlers this)"
  shows "list_all2 (\<lambda>h0 h. h = h0 \<or> (\<exists>len. h = mergedHeaders h0 len)) hs0
           (sv_handlers (serve this req))"
  using each_merged [OF assms]
  by (simp add: serve_def connectApp_def handleMockedRequest_def case_prod_beta)

lemma served_merged:
  assumes "list_all2 (\<lambda>h0 h. h = h0 \<or> (\<exists>len. h = mergedHeaders h0 len)) hs0 (sv_handlers this)"
  shows "list_all2 (\<lambda>h0 h. h = h0 \<or> (\<exists>len. h = mergedHeaders h0 len)) hs0
           (sv_handlers (served this reqs))"
  using assms
proof (induction reqs arbitrary: this)
  case Nil
  then show ?case by (simp add: served_def)
next
  case (Cons req reqs)
  from Cons.IH [OF serve_merged [OF Cons.prems, of req]] show ?case
    by (simp add: served_def)
qed

theorem dispatch_changes_headers_counterexample:
  "sv_handlers (serve (will mockServer ping) (incoming ''GET'' ''/ping''))
     \<noteq> sv_handlers (will mockServer ping)"
  by (simp add: serve_def run_defs)

text \<open>
  C4, as amended. Serving requests never adds, removes or reorders handlers, and leaves every
  handler as it was registered except for its \<^verbatim>\<open>reply.headers\<close>: each handler is either as
  registered, or as registered with a \<^verbatim>\<open>content-length\<close> entry and its
  \<^verbatim>\<open>headersOverrides\<close> merged into that object. A request that no handler matches changes
  nothing, and a request that is matched changes at most the first handler that matches it.
\<close>

theorem dispatch_changes_only_headers:
  "length (sv_handlers (served this reqs)) = length (sv_handlers this)
   \<and> (\<forall>j<length (sv_handlers this).
         sv_handlers (served this reqs) ! j = sv_handlers this ! j
         \<or> (\<exists>len. sv_handlers (served this reqs) ! j = mergedHeaders (sv_handlers this ! j) len))
   \<and> ((\<forall>x\<in>set (sv_handlers this). \<not> matches x (parseUrl req)) \<longrightarrow>
         sv_handlers (serve this req) = sv_handlers this)
   \<and> (\<forall>pre h post.
         sv_handlers this = pre @ h # post \<and> (\<forall>x\<in>set pre. \<not> matches x (parseUrl req))
         \<and> matches h (parseUrl req) \<longrightarrow>
         (\<exists>h'. sv_handlers (serve this req) = pre @ h' # post
               \<and> (h' = h \<or> (\<exists>len. h' = mergedHeaders h len))))"
proof -
  have "list_all2 (\<lambda>h0 h. h = h0 \<or> (\<exists>len. h = mergedHeaders h0 len))
          (sv_handlers this) (sv_handlers this)"
    by (simp add: list_all2_same)
  from served_merged [OF this, of reqs]
  have a: "length (sv_handlers (served this reqs)) = length (sv_handlers this)
     \<and> (\<forall>j<length (sv_handlers this).
         sv_handlers (served this reqs) ! j = sv_handlers this ! j
         \<or> (\<exists>len. sv_handlers (served this reqs) ! j = mergedHeaders (sv_handlers this ! j) len))"
    by (simp add: list_all2_conv_all_nth)
  have b: "sv_handlers (serve this req) = sv_handlers this"
    if "\<forall>x\<in>set (sv_handlers this). \<not> matches x (parseUrl req)"
    using handleMockedRequest_no_match(2) [OF that] by (simp add: serve_def connectApp_def)
  have c: "\<exists>h'. sv_handlers (serve this req) = pre @ h' # post
               \<and> (h' = h \<or> (\<exists>len. h' = mergedHeaders h len))"
    if "sv_handlers this = pre @ h # post \<and> (\<forall>x\<in>set pre. \<not> matches x (parseUrl req))
         \<and> matches h (parseUrl req)" for pre h post
  proof -
    from that have hs: "sv_handlers this = pre @ h # post"
      and pre: "\<forall>x\<in>set pre. \<not> matches x (parseUrl req)" and h: "matches h (parseUrl req)"
      by simp_all
    have "sv_handlers (serve this req)
            = pre @ snd (snd (respond (length pre) h (parseUrl req))) # post"
      by (simp add: serve_def connectApp_def hs handleMockedRequest_first_match [OF pre h])
    with snd_respond_cases [of "length pre" h "parseUrl req"] show ?thesis by blast
  qed
  from a b c show ?thesis by blast
qed

theorem dispatch_changes_only_headers_witness:
  "length (sv_handlers (served (will (will mockServer other) ping)
       [incoming ''GET'' ''/ping'', incoming ''GET'' ''/nowhere''])) = 2
   \<and> sv_handlers (served (will (will mockServer other) ping)
       [incoming ''GET'' ''/ping'', incoming ''GET'' ''/nowhere'']) ! 0 = stored other
   \<and> sv_handlers (served (will (will mockServer other) ping)
       [incoming ''GET'' ''/ping'', incoming ''GET'' ''/nowhere'']) ! 1
       = mergedHeaders (stored ping) 4
   \<and> sv_handlers (serve (will (will mockServer other) ping) (incoming ''GET'' ''/nowhere''))
       = [stored other, stored ping]"
proof -
  let ?s = "will (will mockServer other) ping"
  let ?rs = "[incoming ''GET'' ''/ping'', incoming ''GET'' ''/nowhere'']"
  have t: "sv_handlers ?s = [stored other, stored ping]"
    by (simp add: will_def mockServer_def Server_def)
  have n: "\<forall>x\<in>set (sv_handlers ?s). \<not> matches x (parseUrl (incoming ''GET'' ''/nowhere''))"
    unfolding t by (simp add: run_defs)
  have e0: "sv_handlers (served ?s ?rs) ! 0 = stored other"
    and e1: "sv_handlers (served ?s ?rs) ! 1 = mergedHeaders (stored ping) 4"
    by (simp_all add: served_def serve_def mergedHeaders_def run_defs)
  from dispatch_changes_only_headers [of ?s ?rs "incoming ''GET'' ''/nowhere''"] t n e0 e1
  show ?thesis by simp
qed


section \<open>What registration stores\<close>

theorem present_headers_kept_counterexample:
  "map_option d_headers (d_reply custom)
     = Some (Some (DAList.update ''x-a'' (JStr ''1'') DAList.empty))
   \<and> r_headers (h_reply (stored custom)) \<noteq> DAList.update ''x-a'' (JStr ''1'') DAList.empty
   \<and> DAList.impl_of (r_headers (h_reply (stored custom)))
       = [(''content-type'', JStr ''application/json''), (''x-a'', JStr ''1'')]"
  by (simp add: run_defs)

text \<open>
  C7, as amended. The handler that registration stores has \<^verbatim>\<open>when\<close>, \<^verbatim>\<open>reply.status\<close> and
  \<^verbatim>\<open>reply.body\<close> as given when they are present, falsy values included, and \<^verbatim>\<open>"GET"\<close>,
  \<^verbatim>\<open>200\<close> and the empty string when they are missing. Its \<^verbatim>\<open>reply.headers\<close> are the given
  headers, entry for entry, over the default \<^verbatim>\<open>content-type: application/json\<close>: the default
  is there whenever the given headers have no \<^verbatim>\<open>content-type\<close> entry, and it is the only
  entry when no headers are given. The other properties are kept, and registration returns
  the server with the handler appended to its table, so that registrations chain.
\<close>

theorem registration_defaults:
  "h_when (stored d) = (case d_when d of None \<Rightarrow> ''GET'' | Some w \<Rightarrow> w)
   \<and> r_status (h_reply (stored d))
       = (case d_reply d of None \<Rightarrow> JNum 200
          | Some r \<Rightarrow> (case d_status r of None \<Rightarrow> JNum 200 | Some v \<Rightarrow> v))
   \<and> r_body (h_reply (stored d))
       = (case d_reply d of None \<Rightarrow> JStr []
          | Some r \<Rightarrow> (case d_body r of None \<Rightarrow> JStr [] | Some v \<Rightarrow> v))
   \<and> DAList.lookup (r_headers (h_reply (stored d)))
       = [''content-type'' \<mapsto> JStr ''application/json''] ++ givenHeaders d
   \<and> ((case d_reply d of None \<Rightarrow> None | Some r \<Rightarrow> d_headers r) = None \<longrightarrow>
        DAList.impl_of (r_headers (h_reply (stored d)))
          = [(''content-type'', JStr ''application/json'')])
   \<and> r_headersOverrides (h_reply (stored d))
       = (case d_reply d of None \<Rightarrow> None | Some r \<Rightarrow> d_headersOverrides r)
   \<and> h_on (stored d) = d_on d \<and> h_filter (stored d) = d_filter d
   \<and> h_delay (stored d) = d_delay d
   \<and> will this d = this\<lparr>sv_handlers := sv_handlers this @ [stored d]\<rparr>
   \<and> sv_handlers (will (will this d) d') = sv_handlers this @ [stored d, stored d']"
proof -
  have hd: "DAList.impl_of (r_headers (h_reply (stored d)))
          = [(''content-type'', JStr ''application/json'')]"
    if "(case d_reply d of None \<Rightarrow> None | Some r \<Rightarrow> d_headers r) = None"
    using that
    by (simp add: stored_def Let_def noReply_def extendObject_def assign_def defaultHeaders_def
        DAList.update.rep_eq DAList.empty.rep_eq split: option.splits)
  have rest: "h_when (stored d) = (case d_when d of None \<Rightarrow> ''GET'' | Some w \<Rightarrow> w)"
    "r_status (h_reply (stored d))
       = (case d_reply d of None \<Rightarrow> JNum 200
          | Some r \<Rightarrow> (case d_status r of None \<Rightarrow> JNum 200 | Some v \<Rightarrow> v))"
    "r_body (h_reply (stored d))
       = (case d_reply d of None \<Rightarrow> JStr []
          | Some r \<Rightarrow> (case d_body r of None \<Rightarrow> JStr [] | Some v \<Rightarrow> v))"
    "r_headersOverrides (h_reply (stored d))
       = (case d_reply d of None \<Rightarrow> None | Some r \<Rightarrow> d_headersOverrides r)"
    "h_on (stored d) = d_on d" "h_filter (stored d) = d_filter d" "h_delay (stored d) = d_delay d"
    by (simp_all add: stored_def Let_def noReply_def split: option.splits)
  have w: "will this d = this\<lparr>sv_handlers := sv_handlers this @ [stored d]\<rparr>"
    "sv_handlers (will (will this d) d') = sv_handlers this @ [stored d, stored d']"
    by (simp_all add: will_def)
  from hd rest w lookup_stored_headers [of d] show ?thesis by simp
qed

theorem registration_defaults_witness:
  "h_when (stored zero) = ''GET''
   \<and> r_status (h_reply (stored zero)) = JNum 0
   \<and> r_body (h_reply (stored zero)) = JNull
   \<and> DAList.impl_of (r_headers (h_reply (stored zero)))
       = [(''content-type'', JStr ''application/json'')]
   \<and> r_status (h_reply (stored other)) = JNum 200
   \<and> r_body (h_reply (stored other)) = JStr []
   \<and> h_when (stored other) = ''post''
   \<and> DAList.lookup (r_headers (h_reply (stored gone))) ''content-type'' = Some JNull
   \<and> DAList.lookup (r_headers (h_reply (stored custom))) ''content-type''
       = Some (JStr ''application/json'')
   \<and> DAList.lookup (r_headers (h_reply (stored custom))) ''x-a'' = Some (JStr ''1'')
   \<and> sv_handlers (will (will mockServer zero) other) = [stored zero, stored other]"
proof -
  have z: "(case d_reply zero of None \<Rightarrow> None | Some r \<Rightarrow> d_headers r) = None"
    by (simp add: zero_def route_def replying_def)
  have g: "([''content-type'' \<mapsto> JStr ''application/json''] ++ givenHeaders gone) ''content-type''
             = Some JNull"
    "([''content-type'' \<mapsto> JStr ''application/json''] ++ givenHeaders custom) ''content-type''
             = Some (JStr ''application/json'')"
    "([''content-type'' \<mapsto> JStr ''application/json''] ++ givenHeaders custom) ''x-a''
             = Some (JStr ''1'')"
    by (simp_all add: givenHeaders_def gone_def custom_def route_def DAList.lookup_update
        map_add_def)
  have m: "sv_handlers mockServer = []"
    by (simp add: mockServer_def Server_def)
  note rz = registration_defaults [of zero mockServer other]
  from rz have "h_when (stored zero) = (case d_when zero of None \<Rightarrow> ''GET'' | Some w \<Rightarrow> w)"
    and "r_status (h_reply (stored zero))
       = (case d_reply zero of None \<Rightarrow> JNum 200
          | Some r \<Rightarrow> (case d_status r of None \<Rightarrow> JNum 200 | Some v \<Rightarrow> v))"
    and "r_body (h_reply (stored zero))
       = (case d_reply zero of None \<Rightarrow> JStr []
          | Some r \<Rightarrow> (case d_body r of None \<Rightarrow> JStr [] | Some v \<Rightarrow> v))"
    by blast+
  then have 1: "h_when (stored zero) = ''GET''" "r_status (h_reply (stored zero)) = JNum 0"
    "r_body (h_reply (stored zero)) = JNull"
    by (simp_all add: zero_def route_def replying_def)
  from rz z have 5: "DAList.impl_of (r_headers (h_reply (stored zero)))
       = [(''content-type'', JStr ''application/json'')]"
    by blast
  from rz have "sv_handlers (will (will mockServer zero) other)
                  = sv_handlers mockServer @ [stored zero, stored other]"
    by blast
  with m have 6: "sv_handlers (will (will mockServer zero) other) = [stored zero, stored other]"
    by simp
  from registration_defaults [of other mockServer other]
  have 2: "r_status (h_reply (stored other)) = JNum 200" "r_body (h_reply (stored other)) = JStr []"
    "h_when (stored other) = ''post''"
    by (simp_all add: other_def)
  from registration_defaults [of gone mockServer other] g
  have 3: "DAList.lookup (r_headers (h_reply (stored gone))) ''content-type'' = Some JNull"
    by simp
  from registration_defaults [of custom mockServer other] g
  have 4: "DAList.lookup (r_headers (h_reply (stored custom))) ''content-type''
       = Some (JStr ''application/json'')"
    "DAList.lookup (r_headers (h_reply (stored custom))) ''x-a'' = Some (JStr ''1'')"
    by simp_all
  from 1 2 3 4 5 6 show ?thesis by simp
qed

end
